theory Spec2Isabelle
  imports Complex_Main
begin

section \<open>Arrays\<close>

text \<open>
  The program is a NumPy script. Its float64 numbers are modelled as the real numbers they
  approximate (the specification speaks of real vectors and matrices throughout), so
  rounding is outside this development. A 0-d array is a \<open>real\<close>, a 1-D array a list of
  reals, a 2-D array the list of its rows. The operations below are the elementwise and
  matrix operations of NumPy at the shapes the script builds (a 2 by 2 \<open>M\<close>, a 1 by 2 \<open>H\<close>,
  a scalar \<open>R\<close>, states of two entries, observations of one entry); where NumPy would
  reject or broadcast other shapes the list functions truncate, so the theorems are stated
  at the script's shapes.
\<close>

type_synonym vec = "real list"
type_synonym mat = "real list list"

datatype error = LinAlgError | IndexError | ValueError | Unmodelled

definition bindE :: "('e + 'a) \<Rightarrow> ('a \<Rightarrow> 'e + 'b) \<Rightarrow> 'e + 'b" where
  "bindE m f = (case m of Inl e \<Rightarrow> Inl e | Inr a \<Rightarrow> f a)"

definition py_last :: "'a list \<Rightarrow> error + 'a" where
  \<comment> \<open>\<open>xs[-1]\<close>\<close>
  "py_last xs = (if xs = [] then Inl IndexError else Inr (last xs))"

definition py_nth :: "'a list \<Rightarrow> nat \<Rightarrow> error + 'a" where
  \<comment> \<open>\<open>xs[k]\<close> for an index \<open>k \<ge> 0\<close>\<close>
  "py_nth xs k = (if k < length xs then Inr (xs ! k) else Inl IndexError)"

definition py_take :: "int \<Rightarrow> 'a list \<Rightarrow> 'a list" where
  \<comment> \<open>\<open>xs[:i]\<close>; a negative \<open>i\<close> counts from the end\<close>
  "py_take i xs = (if 0 \<le> i then take (nat i) xs else take (length xs - nat (- i)) xs)"

definition dot :: "vec \<Rightarrow> vec \<Rightarrow> real" where
  "dot u v = sum_list (map2 (*) u v)"

definition ncols :: "mat \<Rightarrow> nat" where
  "ncols A = (case A of [] \<Rightarrow> 0 | r # _ \<Rightarrow> length r)"

definition col :: "mat \<Rightarrow> nat \<Rightarrow> vec" where
  "col A j = map (\<lambda>r. r ! j) A"

definition mT :: "mat \<Rightarrow> mat" where
  \<comment> \<open>\<open>A.T\<close> of a 2-D array\<close>
  "mT A = map (col A) [0..<ncols A]"

definition matmul :: "mat \<Rightarrow> mat \<Rightarrow> mat" where
  \<comment> \<open>\<open>A @ B\<close>, both 2-D\<close>
  "matmul A B = map (\<lambda>r. map (\<lambda>j. dot r (col B j)) [0..<ncols B]) A"

definition matvec :: "mat \<Rightarrow> vec \<Rightarrow> vec" where
  \<comment> \<open>\<open>A @ x\<close>, \<open>A\<close> 2-D and \<open>x\<close> 1-D\<close>
  "matvec A x = map (\<lambda>r. dot r x) A"

definition identity :: "nat \<Rightarrow> mat" where
  \<comment> \<open>\<open>np.identity(n)\<close>\<close>
  "identity n = map (\<lambda>i. map (\<lambda>j. if i = j then 1 else 0) [0..<n]) [0..<n]"

definition smul :: "real \<Rightarrow> mat \<Rightarrow> mat" where
  \<comment> \<open>scalar \<open>*\<close> 2-D\<close>
  "smul c A = map (map (\<lambda>a. c * a)) A"

definition sadd :: "real \<Rightarrow> mat \<Rightarrow> mat" where
  \<comment> \<open>0-d \<open>+\<close> 2-D: the scalar is broadcast to every entry\<close>
  "sadd c A = map (map (\<lambda>a. c + a)) A"

definition madd :: "mat \<Rightarrow> mat \<Rightarrow> mat" where
  \<comment> \<open>2-D \<open>+\<close> 2-D of one shape\<close>
  "madd A B = map2 (map2 (+)) A B"

definition msub :: "mat \<Rightarrow> mat \<Rightarrow> mat" where
  \<comment> \<open>2-D \<open>-\<close> 2-D of one shape\<close>
  "msub A B = map2 (map2 (-)) A B"

definition bsub :: "mat \<Rightarrow> vec \<Rightarrow> mat" where
  \<comment> \<open>2-D \<open>-\<close> 1-D: the 1-D array is broadcast over the rows\<close>
  "bsub A y = map (\<lambda>r. map2 (-) r y) A"

definition vadd_s :: "vec \<Rightarrow> real \<Rightarrow> vec" where
  \<comment> \<open>1-D \<open>+\<close> scalar\<close>
  "vadd_s v c = map (\<lambda>a. a + c) v"

definition trace :: "mat \<Rightarrow> real" where
  \<comment> \<open>\<open>np.trace(P)\<close>\<close>
  "trace P = sum_list (map (\<lambda>i. P ! i ! i) [0..<min (length P) (ncols P)])"

definition solve :: "mat \<Rightarrow> mat \<Rightarrow> error + mat" where
  \<comment> \<open>\<open>np.linalg.solve(a, b)\<close> for a 1 by 1 coefficient matrix, the only shape the script
      passes: the solution of \<open>a x = b\<close> is \<open>b / a\<close>, and a singular \<open>a\<close> raises
      \<open>LinAlgError\<close>. Larger systems are not modelled.\<close>
  "solve a b = (case a of
       [[s]] \<Rightarrow> (if s = 0 then Inl LinAlgError else Inr (map (map (\<lambda>v. v / s)) b))
     | _ \<Rightarrow> Inl Unmodelled)"


section \<open>Dynamics model\<close>

text \<open>
  \<^verbatim>\<open>A = np.array([[0, 1], [-w**2, -2 * xi * w]])\<close> and \<^verbatim>\<open>M = I + dt * A\<close>
  with \<^verbatim>\<open>I = np.identity(2)\<close>.
\<close>

definition A_mat :: "real \<Rightarrow> real \<Rightarrow> mat" where
  "A_mat w xi = [[0, 1], [- (w ^ 2), (- 2) * xi * w]]"

definition M_mat :: "real \<Rightarrow> real \<Rightarrow> real \<Rightarrow> mat" where
  "M_mat w xi dt = madd (identity 2) (smul dt (A_mat w xi))"


section \<open>Trajectory simulator\<close>

text \<open>
  \<^verbatim>\<open>true_xs = [x0]\<close>, then \<^verbatim>\<open>for k in range(n*T): true_xs += [M @ true_xs[-1]]\<close>,
  and later \<^verbatim>\<open>true_xs = true_xs[:T+1]\<close>. The loop body does not read \<open>k\<close>.
\<close>

fun true_xs_loop :: "mat \<Rightarrow> nat \<Rightarrow> vec list \<Rightarrow> error + vec list" where
  "true_xs_loop M 0 xs = Inr xs"
| "true_xs_loop M (Suc k) xs =
     bindE (py_last xs) (\<lambda>x. true_xs_loop M k (xs @ [matvec M x]))"

definition true_xs_long :: "mat \<Rightarrow> vec \<Rightarrow> int \<Rightarrow> int \<Rightarrow> error + vec list" where
  "true_xs_long M x0 n T = true_xs_loop M (nat (n * T)) [x0]"

definition true_xs :: "mat \<Rightarrow> vec \<Rightarrow> int \<Rightarrow> int \<Rightarrow> error + vec list" where
  "true_xs M x0 n T = bindE (true_xs_long M x0 n T) (\<lambda>xs. Inr (py_take (T + 1) xs))"


section \<open>Measurement generator\<close>

text \<open>
  \<^verbatim>\<open>synth_ys = [H @ x + np.random.normal(0, np.sqrt(R)) for x in true_xs]\<close>.
  \<open>np.random.normal(loc, scale)\<close> returns \<open>loc + scale * z\<close> for the next standard normal
  variate \<open>z\<close> of the global generator; the variates are an input \<open>g\<close> of the model, the
  \<open>k\<close>-th call taking \<open>g k\<close>. For a negative \<open>R\<close> NumPy's square root is not a number, which
  \<^const>\<open>sqrt\<close> does not model: statements about the measurements assume \<open>0 \<le> R\<close>.
\<close>

definition normal :: "real \<Rightarrow> real \<Rightarrow> real \<Rightarrow> real" where
  "normal loc scale z = loc + scale * z"

definition synth_ys :: "mat \<Rightarrow> real \<Rightarrow> vec list \<Rightarrow> (nat \<Rightarrow> real) \<Rightarrow> vec list" where
  "synth_ys H R xs g =
     map (\<lambda>(k, x). vadd_s (matvec H x) (normal 0 (sqrt R) (g k))) (enumerate 0 xs)"


section \<open>Kalman filter\<close>

text \<open>
  The three lists the loop appends to are the state. An exception leaves the lists as
  they are at the raising line, so a failure carries them: \<open>np.linalg.solve\<close> raises before
  anything is appended, \<open>synth_ys[k]\<close> after the gain has been appended.

  The arithmetic of the model is exact, and so is its test for a singular matrix. In the
  script the value handed to \<open>np.linalg.solve\<close> is a rounded float64, so whether and at which
  step \<open>LinAlgError\<close> is raised can differ from the model where the exact innovation
  covariance is zero. No theorem below says when the error is raised.
\<close>

record kf =
  kalman_mus :: "mat list"
  kalman_Ps :: "mat list"
  kalman_gains :: "mat list"

definition kalman_init :: kf where
  \<comment> \<open>\<^verbatim>\<open>kalman_mus = [np.array([[0, 0]]).T]\<close>, \<^verbatim>\<open>kalman_Ps = [I]\<close>, \<^verbatim>\<open>kalman_gains = []\<close>\<close>
  "kalman_init = \<lparr>kalman_mus = [mT [[0, 0]]], kalman_Ps = [identity 2], kalman_gains = []\<rparr>"

definition fail :: "kf \<Rightarrow> (error + 'a) \<Rightarrow> ('a \<Rightarrow> (error \<times> kf) + 'b) \<Rightarrow> (error \<times> kf) + 'b" where
  \<comment> \<open>run \<open>m\<close>; if it raises, the exception leaves the state \<open>st\<close> behind\<close>
  "fail st m f = (case m of Inl e \<Rightarrow> Inl (e, st) | Inr a \<Rightarrow> f a)"

definition kalman_step :: "mat \<Rightarrow> mat \<Rightarrow> real \<Rightarrow> vec list \<Rightarrow> nat \<Rightarrow> kf \<Rightarrow> (error \<times> kf) + kf" where
  "kalman_step M H R ys k st =
     fail st (py_last (kalman_mus st)) (\<lambda>mu_last.
     fail st (py_last (kalman_Ps st)) (\<lambda>P_last.
       let mu_f = matmul M mu_last;
           P_f = matmul (matmul M P_last) (mT M)
       in
     fail st (solve (sadd R (mT (matmul (matmul H P_f) (mT H)))) (matmul H (mT P_f))) (\<lambda>X.
       let K = mT X;
           st1 = st\<lparr>kalman_gains := kalman_gains st @ [K]\<rparr>
       in
     fail st1 (py_nth ys k) (\<lambda>y.
       let new_mu = msub mu_f (matmul K (bsub (matmul H mu_f) y));
           new_P = msub P_f (matmul K (matmul H P_f))
       in Inr (st1\<lparr>kalman_mus := kalman_mus st1 @ [new_mu],
                   kalman_Ps := kalman_Ps st1 @ [new_P]\<rparr>)))))"

fun kalman_loop :: "mat \<Rightarrow> mat \<Rightarrow> real \<Rightarrow> vec list \<Rightarrow> nat list \<Rightarrow> kf \<Rightarrow> (error \<times> kf) + kf" where
  "kalman_loop M H R ys [] st = Inr st"
| "kalman_loop M H R ys (k # ks) st =
     (case kalman_step M H R ys k st of
        Inl e \<Rightarrow> Inl e
      | Inr st' \<Rightarrow> kalman_loop M H R ys ks st')"

definition kalman_filter :: "mat \<Rightarrow> mat \<Rightarrow> real \<Rightarrow> int \<Rightarrow> vec list \<Rightarrow> (error \<times> kf) + kf" where
  \<comment> \<open>\<^verbatim>\<open>for k in range(T)\<close> from the initial lists\<close>
  "kalman_filter M H R T ys = kalman_loop M H R ys [0..<nat T] kalman_init"


definition final_state :: "(error \<times> kf) + kf \<Rightarrow> kf" where
  \<comment> \<open>the three lists as the loop leaves them, whether it ran to the end or raised\<close>
  "final_state r = (case r of Inl (e, st) \<Rightarrow> st | Inr st \<Rightarrow> st)"


section \<open>Diagnostics\<close>

text \<open>
  \<^verbatim>\<open>RMSEs = [np.sqrt(0.5*((true_xs[k][0] - kalman_mus[k][0])**2
                      + (true_xs[k][1] - kalman_mus[k][1])**2)) for k in range(T+1)]\<close>
  and \<^verbatim>\<open>cov_traces = [np.sqrt(0.5 * np.trace(P)) for P in kalman_Ps]\<close>.
  \<open>true_xs[k][0]\<close> is a scalar and \<open>kalman_mus[k][0]\<close> a row of a column vector, a 1-D array
  of one entry, so each RMSE is a 1-D array of one entry.
\<close>

definition rmse :: "vec \<Rightarrow> mat \<Rightarrow> error + vec" where
  "rmse x mu =
     bindE (py_nth x 0) (\<lambda>xa. bindE (py_nth mu 0) (\<lambda>ma.
     bindE (py_nth x 1) (\<lambda>xb. bindE (py_nth mu 1) (\<lambda>mb.
       Inr (map sqrt (map (\<lambda>v. 0.5 * v)
             (map2 (+) (map (\<lambda>m. (xa - m)\<^sup>2) ma) (map (\<lambda>m. (xb - m)\<^sup>2) mb))))))))"

fun collect :: "(nat \<Rightarrow> error + 'a) \<Rightarrow> nat list \<Rightarrow> error + 'a list" where
  \<comment> \<open>a list comprehension whose body may raise\<close>
  "collect f [] = Inr []"
| "collect f (k # ks) = bindE (f k) (\<lambda>v. bindE (collect f ks) (\<lambda>vs. Inr (v # vs)))"

definition RMSEs :: "int \<Rightarrow> vec list \<Rightarrow> mat list \<Rightarrow> error + vec list" where
  "RMSEs T xs mus =
     collect (\<lambda>k. bindE (py_nth xs k) (\<lambda>x. bindE (py_nth mus k) (\<lambda>mu. rmse x mu)))
       [0..<nat (T + 1)]"

definition cov_traces :: "mat list \<Rightarrow> real list" where
  "cov_traces Ps = map (\<lambda>P. sqrt (0.5 * trace P)) Ps"


section \<open>The script\<close>

text \<open>
  The script's global parameters are the configuration. Its random numbers come from
  NumPy's global generator, which the script never seeds: the value returned by
  \<^verbatim>\<open>np.random.multivariate_normal([0, 0], I)\<close> for \<open>x0\<close> and the standard normal variates
  behind the calls of \<open>np.random.normal\<close> are inputs of the model. An uncaught exception
  ends the script.

  Of the plots the model keeps what can end the script: every \<open>scatter(x, y)\<close> flattens its
  two arguments and raises \<open>ValueError\<close> unless they have the same number of entries, and
  the list comprehensions that pick the components to plot index every entry. Figures,
  labels and \<open>plt.show()\<close> are left out.
\<close>

record config =
  cfg_T :: int
  cfg_dt :: real
  cfg_w :: real
  cfg_xi :: real
  cfg_H :: mat
  cfg_R :: real
  cfg_n :: int

record draws =
  x0_draw :: vec  \<comment> \<open>line 16: \<^verbatim>\<open>x0 = np.random.multivariate_normal([0, 0], I)\<close>\<close>
  gauss :: "nat \<Rightarrow> real"  \<comment> \<open>line 60: the variate of the \<open>k\<close>-th call of \<open>np.random.normal\<close>\<close>

record run =
  run_true_xs :: "vec list"
  run_synth_ys :: "vec list"
  run_kf :: kf
  run_RMSEs :: "vec list"
  run_cov_traces :: "real list"

definition reference :: config where
  \<comment> \<open>the values of lines 9 to 14 and 24\<close>
  "reference = \<lparr>cfg_T = 25000, cfg_dt = 0.001, cfg_w = 1, cfg_xi = 0.001,
                 cfg_H = [[1, 0]], cfg_R = 5, cfg_n = 30\<rparr>"

definition times_list :: "real \<Rightarrow> int \<Rightarrow> real list" where
  \<comment> \<open>\<^verbatim>\<open>[0 + k * dt for k in range(m)]\<close>\<close>
  "times_list dt m = map (\<lambda>k. 0 + real k * dt) [0..<nat m]"

definition component :: "nat \<Rightarrow> 'a list list \<Rightarrow> error + 'a list" where
  \<comment> \<open>\<^verbatim>\<open>[x[i] for x in xs]\<close>\<close>
  "component i xs = collect (\<lambda>j. py_nth (xs ! j) i) [0..<length xs]"

definition scatter :: "nat \<Rightarrow> nat \<Rightarrow> error + unit" where
  \<comment> \<open>\<open>scatter(x, y)\<close> for arguments of \<open>nx\<close> and \<open>ny\<close> entries\<close>
  "scatter nx ny = (if nx = ny then Inr () else Inl ValueError)"

definition program :: "config \<Rightarrow> draws \<Rightarrow> error + run" where
  "program cfg d =
     (let M = M_mat (cfg_w cfg) (cfg_xi cfg) (cfg_dt cfg);
          H = cfg_H cfg; R = cfg_R cfg; T = cfg_T cfg;
          times_long = times_list (cfg_dt cfg) (cfg_n cfg * T + 1)
      in
      bindE (true_xs_long M (x0_draw d) (cfg_n cfg) T) (\<lambda>xs_long.
      bindE (component 0 xs_long) (\<lambda>zs_long.
      bindE (component 1 xs_long) (\<lambda>zts_long.
      bindE (scatter (length times_long) (length zs_long)) (\<lambda>_.
      bindE (scatter (length times_long) (length zts_long)) (\<lambda>_.
        let ts = py_take (T + 1) times_long;
            xs = py_take (T + 1) xs_long;
            zs = py_take (T + 1) zs_long;
            zts = py_take (T + 1) zts_long;
            ys = synth_ys H R xs (gauss d)
        in
      bindE (scatter (length ts) (length (concat ys))) (\<lambda>_.
      bindE (scatter (length ts) (length zs)) (\<lambda>_.
        case kalman_filter M H R T ys of
          Inl (e, st) \<Rightarrow> Inl e
        | Inr st \<Rightarrow>
      bindE (component 0 (kalman_mus st)) (\<lambda>kalman_zs.
      bindE (component 1 (kalman_mus st)) (\<lambda>kalman_zts.
      bindE (scatter (length ts) (length zs)) (\<lambda>_.
      bindE (scatter (length ts) (length (concat kalman_zs))) (\<lambda>_.
      bindE (scatter (length ts) (length zts)) (\<lambda>_.
      bindE (scatter (length ts) (length (concat kalman_zts))) (\<lambda>_.
      bindE (component 0 (kalman_gains st)) (\<lambda>K0s.
      bindE (component 1 (kalman_gains st)) (\<lambda>K1s.
      bindE (scatter (length (drop 1 ts)) (length (concat K0s))) (\<lambda>_.
      bindE (scatter (length (drop 1 ts)) (length (concat K1s))) (\<lambda>_.
      bindE (RMSEs T xs (kalman_mus st)) (\<lambda>rs.
      bindE (scatter (length ts) (length (concat rs))) (\<lambda>_.
      bindE (scatter (length ts) (length (cov_traces (kalman_Ps st)))) (\<lambda>_.
        Inr \<lparr>run_true_xs = xs, run_synth_ys = ys, run_kf = st, run_RMSEs = rs,
             run_cov_traces = cov_traces (kalman_Ps st)\<rparr>)))))))))))))))))))))"


text \<open>Small configurations and draws on which the script is run below.\<close>

definition no_noise :: "nat \<Rightarrow> real" where
  "no_noise k = 0"

definition unit_noise :: "nat \<Rightarrow> real" where
  "unit_noise k = 1"

definition small_cfg :: config where
  "small_cfg = \<lparr>cfg_T = 1, cfg_dt = 1, cfg_w = 1, cfg_xi = 0,
                 cfg_H = [[1, 0]], cfg_R = 1, cfg_n = 1\<rparr>"

definition draws_a :: draws where
  "draws_a = \<lparr>x0_draw = [0, 0], gauss = no_noise\<rparr>"

definition draws_b :: draws where
  "draws_b = \<lparr>x0_draw = [1, 0], gauss = no_noise\<rparr>"

definition draws_c :: draws where
  "draws_c = \<lparr>x0_draw = [0, 0], gauss = unit_noise\<rparr>"

definition late_noise :: "nat \<Rightarrow> real" where
  "late_noise k = (if k \<le> 1 then 1 else 0)"

definition draws_d :: draws where
  "draws_d = \<lparr>x0_draw = [0, 0], gauss = late_noise\<rparr>"

definition bad_cfg :: config where
  \<comment> \<open>a negative time step\<close>
  "bad_cfg = \<lparr>cfg_T = 1, cfg_dt = - 1, cfg_w = 1, cfg_xi = 0,
               cfg_H = [[1, 0]], cfg_R = 1, cfg_n = 1\<rparr>"

definition neg_cfg :: config where
  \<comment> \<open>a negative number of steps\<close>
  "neg_cfg = \<lparr>cfg_T = - 1, cfg_dt = 1, cfg_w = 1, cfg_xi = 0,
               cfg_H = [[1, 0]], cfg_R = 1, cfg_n = 1\<rparr>"

text \<open>The runs of the script on them, as evaluation gives them.\<close>

definition kf_small :: "mat \<Rightarrow> kf" where
  "kf_small mu = \<lparr>kalman_mus = [[[0], [0]], mu],
                   kalman_Ps = [[[1, 0], [0, 1]], [[2 / 3, 0], [0, 2]]],
                   kalman_gains = [[[2 / 3], [0]]]\<rparr>"

definition run_a :: run where
  "run_a = \<lparr>run_true_xs = [[0, 0], [0, 0]], run_synth_ys = [[0], [0]],
             run_kf = kf_small [[0], [0]], run_RMSEs = [[0], [0]],
             run_cov_traces = cov_traces [[[1, 0], [0, 1]], [[2 / 3, 0], [0, 2]]]\<rparr>"

definition run_b :: run where
  "run_b = \<lparr>run_true_xs = [[1, 0], [1, - 1]], run_synth_ys = [[1], [1]],
             run_kf = kf_small [[2 / 3], [0]],
             run_RMSEs = [[sqrt (1 / 2)], [sqrt (((1 / 3)\<^sup>2 + 1) / 2)]],
             run_cov_traces = cov_traces [[[1, 0], [0, 1]], [[2 / 3, 0], [0, 2]]]\<rparr>"

definition run_c :: run where
  "run_c = \<lparr>run_true_xs = [[0, 0], [0, 0]], run_synth_ys = [[1], [1]],
             run_kf = kf_small [[2 / 3], [0]],
             run_RMSEs = [[0], [sqrt ((2 / 3)\<^sup>2 / 2)]],
             run_cov_traces = cov_traces [[[1, 0], [0, 1]], [[2 / 3, 0], [0, 2]]]\<rparr>"

definition run_bad :: run where
  "run_bad = \<lparr>run_true_xs = [[1, 0], [1, 1]], run_synth_ys = [[1], [1]],
               run_kf = kf_small [[2 / 3], [0]],
               run_RMSEs = [[sqrt (1 / 2)], [sqrt (((1 / 3)\<^sup>2 + 1) / 2)]],
               run_cov_traces = cov_traces [[[1, 0], [0, 1]], [[2 / 3, 0], [0, 2]]]\<rparr>"


section \<open>The transition of the specification\<close>

text \<open>
  The per-step transition in the words of the specification, for a state \<open>(\<mu>, P)\<close> and an
  observation \<open>y\<close>: forecast \<open>\<mu>\<^sub>f = M \<mu>\<close> and \<open>P\<^sub>f = M P M\<^sup>T\<close>, innovation covariance
  \<open>S = R + H P\<^sub>f H\<^sup>T\<close>, a gain \<open>K\<close> with \<open>K S = (H P\<^sub>f)\<^sup>T\<close>, and the correction
  \<open>\<mu>\<^sub>n\<^sub>e\<^sub>w = \<mu>\<^sub>f - K (H \<mu>\<^sub>f - y)\<close>, \<open>P\<^sub>n\<^sub>e\<^sub>w = P\<^sub>f - K (H P\<^sub>f)\<close>. \<open>R\<close> is the scalar of the script.
\<close>

definition forecast_mean :: "mat \<Rightarrow> mat \<Rightarrow> mat" where
  "forecast_mean M mu = matmul M mu"

definition forecast_cov :: "mat \<Rightarrow> mat \<Rightarrow> mat" where
  "forecast_cov M P = matmul (matmul M P) (mT M)"

definition innovation_cov :: "mat \<Rightarrow> real \<Rightarrow> mat \<Rightarrow> mat" where
  "innovation_cov H R P_f = sadd R (matmul (matmul H P_f) (mT H))"

definition is_gain :: "mat \<Rightarrow> mat \<Rightarrow> real \<Rightarrow> mat \<Rightarrow> bool" where
  "is_gain K H R P_f \<longleftrightarrow> matmul K (innovation_cov H R P_f) = mT (matmul H P_f)"

definition correct_mean :: "mat \<Rightarrow> mat \<Rightarrow> mat \<Rightarrow> vec \<Rightarrow> mat" where
  "correct_mean H K mu_f y = msub mu_f (matmul K (bsub (matmul H mu_f) y))"

definition correct_cov :: "mat \<Rightarrow> mat \<Rightarrow> mat \<Rightarrow> mat" where
  "correct_cov H K P_f = msub P_f (matmul K (matmul H P_f))"

text \<open>
  Shapes, symmetry and positive semidefiniteness. The Loewner order of the glossary is
  \<open>A \<preceq> B\<close> iff \<open>B - A\<close> is positive semidefinite.
\<close>

definition is_mat :: "nat \<Rightarrow> nat \<Rightarrow> mat \<Rightarrow> bool" where
  "is_mat r c A \<longleftrightarrow> length A = r \<and> (\<forall>row \<in> set A. length row = c)"

definition symmetric :: "mat \<Rightarrow> bool" where
  "symmetric P \<longleftrightarrow> mT P = P"

definition quad :: "mat \<Rightarrow> vec \<Rightarrow> real" where
  \<comment> \<open>the quadratic form \<open>x\<^sup>T P x\<close>\<close>
  "quad P x = dot x (matvec P x)"

definition psd :: "mat \<Rightarrow> bool" where
  "psd P \<longleftrightarrow> symmetric P \<and> (\<forall>x. length x = length P \<longrightarrow> 0 \<le> quad P x)"

definition loewner_le :: "mat \<Rightarrow> mat \<Rightarrow> bool" where
  "loewner_le A B \<longleftrightarrow> psd (msub B A)"


definition cov_inv :: "mat \<Rightarrow> mat list \<Rightarrow> bool" where
  \<comment> \<open>the invariant of the list of covariances\<close>
  "cov_inv M Ps \<longleftrightarrow> Ps \<noteq> [] \<and> (\<forall>P \<in> set Ps. is_mat 2 2 P \<and> psd P)
     \<and> (\<forall>k. Suc k < length Ps \<longrightarrow> loewner_le (Ps ! Suc k) (forecast_cov M (Ps ! k)))"


definition offset_inv :: "mat \<Rightarrow> mat \<Rightarrow> vec list \<Rightarrow> kf \<Rightarrow> bool" where
  \<comment> \<open>the invariant of the three lists: entry \<open>k + 1\<close> is the correction, with gain \<open>k\<close> and
      observation \<open>k\<close>, of the forecast of entry \<open>k\<close>\<close>
  "offset_inv M H ys st \<longleftrightarrow>
     length (kalman_mus st) = Suc (length (kalman_gains st))
   \<and> length (kalman_Ps st) = Suc (length (kalman_gains st))
   \<and> (\<forall>k < length (kalman_gains st). k < length ys
        \<and> kalman_mus st ! Suc k
            = correct_mean H (kalman_gains st ! k) (forecast_mean M (kalman_mus st ! k)) (ys ! k)
        \<and> kalman_Ps st ! Suc k
            = correct_cov H (kalman_gains st ! k) (forecast_cov M (kalman_Ps st ! k)))"


definition shape_inv :: "kf \<Rightarrow> bool" where
  \<comment> \<open>the shapes of the stored means and covariances\<close>
  "shape_inv st \<longleftrightarrow> kalman_mus st \<noteq> [] \<and> (\<forall>mu \<in> set (kalman_mus st). is_mat 2 1 mu)
     \<and> kalman_Ps st \<noteq> [] \<and> (\<forall>P \<in> set (kalman_Ps st). is_mat 2 2 P)
     \<and> (\<forall>K \<in> set (kalman_gains st). is_mat 2 1 K)"

section \<open>Theorems\<close>

subsection \<open>Dynamics model\<close>

lemma upt_2: "[0..<2] = [0, Suc 0]"
  by (simp add: upt_rec)

lemma identity_2: "identity 2 = [[1, 0], [0, 1]]"
  by (simp add: identity_def upt_2)

text \<open>
  C5. For scalars \<open>w\<close> (omega), \<open>xi\<close> and \<open>dt\<close> the dynamics model yields
  \<open>A = [[0, 1], [-w\<^sup>2, -2 xi w]]\<close> and \<open>M = I + dt A\<close>, whose entries are written out; both
  are values computed from \<open>(w, xi, dt)\<close> alone.
\<close>

theorem dynamics_model:
  "A_mat w xi = [[0, 1], [- (w\<^sup>2), - (2 * xi * w)]]
   \<and> M_mat w xi dt = madd (identity 2) (smul dt (A_mat w xi))
   \<and> M_mat w xi dt = [[1, dt], [- (dt * w\<^sup>2), 1 - 2 * dt * xi * w]]"
  by (simp add: A_mat_def M_mat_def madd_def smul_def identity_def upt_2)

subsection \<open>Trajectory\<close>

lemma true_xs_loop_eq:
  "xs \<noteq> [] \<Longrightarrow> true_xs_loop M k xs
     = Inr (xs @ map (\<lambda>j. (matvec M ^^ Suc j) (last xs)) [0..<k])"
proof (induction k arbitrary: xs)
  case 0
  then show ?case by simp
next
  case (Suc k)
  have "true_xs_loop M (Suc k) xs = true_xs_loop M k (xs @ [matvec M (last xs)])"
    using Suc.prems by (simp add: bindE_def py_last_def)
  also have "\<dots> = Inr ((xs @ [matvec M (last xs)])
       @ map (\<lambda>j. (matvec M ^^ Suc j) (matvec M (last xs))) [0..<k])"
    using Suc.IH [of "xs @ [matvec M (last xs)]"] by simp
  also have "(xs @ [matvec M (last xs)])
       @ map (\<lambda>j. (matvec M ^^ Suc j) (matvec M (last xs))) [0..<k]
     = xs @ map (\<lambda>j. (matvec M ^^ Suc j) (last xs)) [0..<Suc k]"
    by (simp only: map_upt_Suc funpow_Suc_right o_apply append_assoc append_Cons append_Nil funpow_0)
  finally show ?case .
qed

lemma true_xs_long_eq:
  "true_xs_long M x0 n T = Inr (map (\<lambda>j. (matvec M ^^ j) x0) [0..<Suc (nat (n * T))])"
proof -
  have "map (\<lambda>j. (matvec M ^^ j) x0) [0..<Suc (nat (n * T))]
      = [x0] @ map (\<lambda>j. (matvec M ^^ Suc j) (last [x0])) [0..<nat (n * T)]"
    by (simp add: map_upt_Suc del: upt_Suc)
  with true_xs_loop_eq [of "[x0]" M "nat (n * T)"] show ?thesis
    unfolding true_xs_long_def by simp
qed

lemma true_xs_eq:
  assumes "0 \<le> T" and "1 \<le> n"
  shows "true_xs M x0 n T = Inr (map (\<lambda>k. (matvec M ^^ k) x0) [0..<Suc (nat T)])"
proof -
  have "T \<le> n * T"
    using assms by (simp add: mult_le_cancel_right1)
  then have le: "Suc (nat T) \<le> Suc (nat (n * T))"
    by simp
  have "nat (T + 1) = Suc (nat T)"
    using assms by simp
  then have "py_take (T + 1) (map (\<lambda>j. (matvec M ^^ j) x0) [0..<Suc (nat (n * T))])
      = map (\<lambda>k. (matvec M ^^ k) x0) [0..<Suc (nat T)]"
    using assms le by (simp add: py_take_def take_map min_def del: upt_Suc)
  then show ?thesis
    by (simp add: true_xs_def true_xs_long_eq bindE_def del: upt_Suc)
qed

lemma true_xs_hd:
  assumes "0 \<le> T" and "1 \<le> n"
  shows "map_sum id hd (true_xs M x0 n T) = Inr x0"
proof -
  have "hd (map (\<lambda>k. (matvec M ^^ k) x0) [0..<Suc (nat T)]) = x0"
    by (simp add: hd_map del: upt_Suc)
  then show ?thesis
    unfolding true_xs_eq [OF assms] by simp
qed

text \<open>
  C4. For a 2 by 2 matrix \<open>M\<close>, an initial state \<open>x0\<close> of two entries and a step count
  \<open>T \<ge> 0\<close> (and a stacking factor \<open>n \<ge> 1\<close>, 30 in the script) the simulator returns, without
  error, exactly the \<open>T + 1\<close> states \<open>x\<^sub>k = M\<^sup>k x0\<close> for \<open>k = 0, \<dots>, T\<close>, in this order, each
  the product of \<open>M\<close> with its predecessor. The result is a function of \<open>M\<close>, \<open>x0\<close> and \<open>T\<close>
  alone, and nothing is clamped or rescaled.
\<close>

theorem trajectory_simulator:
  assumes "is_mat 2 2 M" and "length x0 = 2" and "0 \<le> T" and "1 \<le> n"
  shows "\<exists>xs. true_xs M x0 n T = Inr xs
     \<and> length xs = nat T + 1
     \<and> xs ! 0 = x0
     \<and> (\<forall>k < nat T. xs ! Suc k = matvec M (xs ! k))
     \<and> (\<forall>k \<le> nat T. xs ! k = (matvec M ^^ k) x0)"
proof -
  let ?xs = "map (\<lambda>k. (matvec M ^^ k) x0) [0..<Suc (nat T)]"
  have nth: "?xs ! k = (matvec M ^^ k) x0" if "k \<le> nat T" for k
    using that nth_map_upt [of k "Suc (nat T)" 0 "\<lambda>k. (matvec M ^^ k) x0"] by simp
  have "true_xs M x0 n T = Inr ?xs"
    using assms(3,4) by (rule true_xs_eq)
  moreover have "length ?xs = nat T + 1"
    by simp
  moreover have "?xs ! 0 = x0"
    using nth [of 0] by simp
  moreover have "\<forall>k < nat T. ?xs ! Suc k = matvec M (?xs ! k)"
  proof (intro allI impI)
    fix k assume "k < nat T"
    then show "?xs ! Suc k = matvec M (?xs ! k)"
      using nth [of k] nth [of "Suc k"] by simp
  qed
  moreover have "\<forall>k \<le> nat T. ?xs ! k = (matvec M ^^ k) x0"
    using nth by blast
  ultimately show ?thesis
    by blast
qed

theorem trajectory_simulator_witness:
  "is_mat 2 2 [[1, 1], [0, 1]] \<and> length [0, 1 :: real] = 2 \<and> (0::int) \<le> 2 \<and> (1::int) \<le> 3
   \<and> true_xs [[1, 1], [0, 1]] [0, 1] 3 2 = Inr [[0, 1], [1, 1], [2, 1]]"
proof -
  have M: "is_mat 2 2 [[1, 1], [0, 1]]" and x: "length [0, 1 :: real] = 2"
    by (simp_all add: is_mat_def)
  have run: "true_xs [[1, 1], [0, 1]] [0, 1] 3 2 = Inr [[0, 1], [1, 1], [2, 1]]"
    by code_simp
  obtain xs where "true_xs [[1, 1], [0, 1]] [0, 1] 3 2 = Inr xs" and "length xs = nat 2 + 1"
    using trajectory_simulator [OF M x, of 2 3] by auto
  with run M x show ?thesis
    by simp
qed

subsection \<open>Matrices of the shapes of the script\<close>

lemma length_2E: "length xs = 2 \<Longrightarrow> (\<And>a b. xs = [a, b] \<Longrightarrow> thesis) \<Longrightarrow> thesis"
  by (cases xs; cases "tl xs"; cases "tl (tl xs)") auto

lemma length_1E: "length xs = 1 \<Longrightarrow> (\<And>a. xs = [a] \<Longrightarrow> thesis) \<Longrightarrow> thesis"
  by (cases xs; cases "tl xs") auto

lemma is_mat_2_2E:
  assumes "is_mat 2 2 A" obtains a b c d where "A = [[a, b], [c, d]]"
proof -
  from assms have "length A = 2" by (simp add: is_mat_def)
  then obtain r1 r2 where A: "A = [r1, r2]" by (rule length_2E)
  with assms have "length r1 = 2" "length r2 = 2" by (simp_all add: is_mat_def)
  then obtain a b c d where "r1 = [a, b]" "r2 = [c, d]" by (metis length_2E)
  with A that show thesis by simp
qed

lemma is_mat_1_2E:
  assumes "is_mat 1 2 A" obtains a b where "A = [[a, b]]"
proof -
  from assms have "length A = 1" by (simp add: is_mat_def)
  then obtain r1 where A: "A = [r1]" by (rule length_1E)
  with assms have "length r1 = 2" by (simp_all add: is_mat_def)
  then obtain a b where "r1 = [a, b]" by (metis length_2E)
  with A that show thesis by simp
qed

lemma is_mat_2_1E:
  assumes "is_mat 2 1 A" obtains a b where "A = [[a], [b]]"
proof -
  from assms have "length A = 2" by (simp add: is_mat_def)
  then obtain r1 r2 where A: "A = [r1, r2]" by (rule length_2E)
  with assms have "length r1 = 1" "length r2 = 1" by (simp_all add: is_mat_def)
  then obtain a b where "r1 = [a]" "r2 = [b]" by (metis length_1E)
  with A that show thesis by simp
qed

lemma is_mat_2x2 [simp]: "is_mat 2 2 [[a, b], [c, d]]"
  by (simp add: is_mat_def)

lemmas arr = matmul_def mT_def col_def ncols_def dot_def sadd_def msub_def bsub_def upt_2

lemma mT_row: "mT [[k1, k2]] = [[k1], [k2]]"
  by (simp add: arr)

lemmas kf_eval = kalman_filter_def kalman_step_def fail_def py_last_def py_nth_def solve_def
  arr Let_def kalman_init_def identity_2

lemma kalman_step_unfold:
  "kalman_step M H R ys k st =
     (if kalman_mus st = [] \<or> kalman_Ps st = [] then Inl (IndexError, st)
      else
        let mu_f = forecast_mean M (last (kalman_mus st));
            P_f = forecast_cov M (last (kalman_Ps st))
        in case solve (sadd R (mT (matmul (matmul H P_f) (mT H)))) (matmul H (mT P_f)) of
             Inl e \<Rightarrow> Inl (e, st)
           | Inr X \<Rightarrow>
               (if k < length ys
                then Inr \<lparr>kalman_mus = kalman_mus st @ [correct_mean H (mT X) mu_f (ys ! k)],
                          kalman_Ps = kalman_Ps st @ [correct_cov H (mT X) P_f],
                          kalman_gains = kalman_gains st @ [mT X]\<rparr>
                else Inl (IndexError, st\<lparr>kalman_gains := kalman_gains st @ [mT X]\<rparr>)))"
  by (simp add: kalman_step_def fail_def py_last_def py_nth_def Let_def forecast_mean_def
      forecast_cov_def correct_mean_def correct_cov_def split: sum.splits)

lemma forecast_cov_2x2:
  "forecast_cov [[m11, m12], [m21, m22]] [[a, b], [c, d]] =
    [[(m11 * a + m12 * c) * m11 + (m11 * b + m12 * d) * m12,
      (m11 * a + m12 * c) * m21 + (m11 * b + m12 * d) * m22],
     [(m21 * a + m22 * c) * m11 + (m21 * b + m22 * d) * m12,
      (m21 * a + m22 * c) * m21 + (m21 * b + m22 * d) * m22]]"
  by (simp add: forecast_cov_def arr)

lemma innovation_cov_1x1:
  "innovation_cov [[h1, h2]] R [[a, b], [c, d]] = [[R + ((h1 * a + h2 * c) * h1 + (h1 * b + h2 * d) * h2)]]"
  by (simp add: innovation_cov_def arr)

lemma solve_gain_2x2:
  "solve (sadd R (mT (matmul (matmul [[h1, h2]] [[a, b], [c, d]]) (mT [[h1, h2]]))))
         (matmul [[h1, h2]] (mT [[a, b], [c, d]]))
   = (let s = R + ((h1 * a + h2 * c) * h1 + (h1 * b + h2 * d) * h2)
      in if s = 0 then Inl LinAlgError
         else Inr [[(h1 * a + h2 * b) / s, (h1 * c + h2 * d) / s]])"
  by (simp add: solve_def arr Let_def)

lemma correct_cov_2x2:
  "correct_cov [[h1, h2]] [[k1], [k2]] [[a, b], [c, d]] =
     [[a - k1 * (h1 * a + h2 * c), b - k1 * (h1 * b + h2 * d)],
      [c - k2 * (h1 * a + h2 * c), d - k2 * (h1 * b + h2 * d)]]"
  by (simp add: correct_cov_def arr)

lemma quad_2x2: "quad [[a, b], [c, d]] [x, y] = x * (a * x + b * y) + y * (c * x + d * y)"
  by (simp add: quad_def matvec_def dot_def)

lemma symmetric_2x2: "symmetric [[a, b], [c, d]] \<longleftrightarrow> b = c"
  by (auto simp add: symmetric_def arr)

lemma psd_2x2_quad:
  "psd [[a, b], [c, d]] \<longleftrightarrow> b = c \<and> (\<forall>x y. 0 \<le> x * (a * x + b * y) + y * (c * x + d * y))"
proof -
  let ?P = "[[a, b], [c, d]]"
  have "(\<forall>v. length v = length ?P \<longrightarrow> 0 \<le> quad ?P v) \<longleftrightarrow> (\<forall>x y. 0 \<le> quad ?P [x, y])"
  proof (intro iffI allI impI)
    fix x y
    assume "\<forall>v. length v = length ?P \<longrightarrow> 0 \<le> quad ?P v"
    then show "0 \<le> quad ?P [x, y]" by simp
  next
    fix v :: vec
    assume all: "\<forall>x y. 0 \<le> quad ?P [x, y]" and "length v = length ?P"
    then have "length v = 2" by simp
    then obtain x y where "v = [x, y]" by (rule length_2E)
    with all show "0 \<le> quad ?P v" by simp
  qed
  then show ?thesis
    by (simp only: psd_def symmetric_2x2 quad_2x2)
qed

lemma psd_2x2_iff:
  "psd [[a, b], [c, d]] \<longleftrightarrow> b = c \<and> 0 \<le> a \<and> 0 \<le> d \<and> b * c \<le> a * d"
proof
  assume "psd [[a, b], [c, d]]"
  then have bc: "b = c" and "\<forall>x y. 0 \<le> x * (a * x + b * y) + y * (c * x + d * y)"
    unfolding psd_2x2_quad by blast+
  then have q: "0 \<le> x * (a * x + b * y) + y * (c * x + d * y)" for x y
    by blast
  from q [of 1 0] have a: "0 \<le> a" by simp
  from q [of 0 1] have d: "0 \<le> d" by simp
  have "b * b \<le> a * d"
  proof (cases "a = 0")
    case True
    from q [of "d + 1" "- b"] True bc have "0 \<le> - (b * b) * (d + 2)"
      by (simp add: algebra_simps)
    moreover have "0 < d + 2" using d by simp
    ultimately have "b * b \<le> 0"
      by (metis mult_less_0_iff neg_0_le_iff_le not_le)
    then have "b = 0" by (metis mult_le_0_iff linorder_not_less order_antisym zero_le_square)
    then show ?thesis using True by simp
  next
    case False
    with a have pos: "0 < a" by simp
    from q [of b "- a"] bc have "0 \<le> a * (a * d - b * b)"
      by (simp add: algebra_simps)
    with pos have "0 \<le> a * d - b * b"
      by (simp add: zero_le_mult_iff)
    then show ?thesis by simp
  qed
  with bc a d show "b = c \<and> 0 \<le> a \<and> 0 \<le> d \<and> b * c \<le> a * d" by simp
next
  assume A: "b = c \<and> 0 \<le> a \<and> 0 \<le> d \<and> b * c \<le> a * d"
  then have bc: "b = c" and a: "0 \<le> a" and d: "0 \<le> d" and det: "b * b \<le> a * d" by auto
  have "0 \<le> x * (a * x + b * y) + y * (b * x + d * y)" for x y
  proof (cases "a = 0")
    case True
    with det have "b * b \<le> 0" by simp
    then have "b = 0" by (metis mult_le_0_iff linorder_not_less order_antisym zero_le_square)
    have "0 \<le> d * (y * y)" using d by simp
    with True \<open>b = 0\<close> show ?thesis by (simp add: mult.left_commute)
  next
    case False
    with a have pos: "0 < a" by simp
    have "a * (x * (a * x + b * y) + y * (b * x + d * y))
        = (a * x + b * y)\<^sup>2 + (a * d - b * b) * y\<^sup>2"
      by (simp add: algebra_simps power2_eq_square)
    moreover have "0 \<le> (a * x + b * y)\<^sup>2 + (a * d - b * b) * y\<^sup>2"
      using det by simp
    ultimately have "0 \<le> a * (x * (a * x + b * y) + y * (b * x + d * y))" by simp
    with pos show ?thesis by (simp add: zero_le_mult_iff)
  qed
  with bc show "psd [[a, b], [c, d]]" by (simp add: psd_2x2_quad)
qed

subsection \<open>One step\<close>

lemma forecast_cov_symmetric:
  assumes "is_mat 2 2 M" and "is_mat 2 2 P" and "symmetric P"
  obtains a b d where "forecast_cov M P = [[a, b], [b, d]]"
proof -
  from assms(1) obtain m11 m12 m21 m22 where M: "M = [[m11, m12], [m21, m22]]"
    by (rule is_mat_2_2E)
  from assms(2) obtain a b c d where P: "P = [[a, b], [c, d]]"
    by (rule is_mat_2_2E)
  from assms(3) have "b = c"
    by (simp add: P symmetric_2x2)
  then have "(m11 * a + m12 * c) * m21 + (m11 * b + m12 * d) * m22
           = (m21 * a + m22 * c) * m11 + (m21 * b + m22 * d) * m12"
    by (simp add: algebra_simps)
  then show thesis
    using that unfolding M P forecast_cov_2x2 by simp
qed

text \<open>
  C1. Let the state end in a mean \<open>\<mu>\<close>, a 2 by 1 column, and a symmetric 2 by 2
  covariance \<open>P\<close> (the covariances of the filter are symmetric), let \<open>M\<close> be 2 by 2 and \<open>H\<close>
  1 by 2, let the observation \<open>ys[k]\<close> exist, with one entry, and the innovation covariance
  \<open>S = R + H P\<^sub>f H\<^sup>T\<close> be nonsingular. Then one pass of the loop body returns, and it appends exactly the
  transition of the specification: with \<open>\<mu>\<^sub>f = M \<mu>\<close> and \<open>P\<^sub>f = M P M\<^sup>T\<close> (nothing is added
  to \<open>P\<^sub>f\<close>), a gain \<open>K\<close> with \<open>K S = (H P\<^sub>f)\<^sup>T\<close> that is the transposed result of the
  linear solve of line 89, the mean \<open>\<mu>\<^sub>f - K (H \<mu>\<^sub>f - y)\<close> and the covariance
  \<open>P\<^sub>f - K (H P\<^sub>f)\<close>; mean and covariance become the last entries of the state and \<open>K\<close> is
  appended to the gains.
\<close>

theorem kalman_step_transition:
  assumes M: "is_mat 2 2 M" and H: "is_mat 1 2 H"
    and mu: "is_mat 2 1 mu" and P: "is_mat 2 2 P" and sym: "symmetric P"
    and mus: "kalman_mus st \<noteq> []" "last (kalman_mus st) = mu"
    and Ps: "kalman_Ps st \<noteq> []" "last (kalman_Ps st) = P"
    and k: "k < length ys" and y: "length (ys ! k) = 1"
    and S: "innovation_cov H R (forecast_cov M P) \<noteq> [[0]]"
  shows "\<exists>K. is_mat 2 1 K
     \<and> is_gain K H R (forecast_cov M P)
     \<and> solve (sadd R (mT (matmul (matmul H (forecast_cov M P)) (mT H))))
              (matmul H (mT (forecast_cov M P))) = Inr (mT K)
     \<and> kalman_step M H R ys k st =
         Inr \<lparr>kalman_mus = kalman_mus st @ [correct_mean H K (forecast_mean M mu) (ys ! k)],
              kalman_Ps = kalman_Ps st @ [correct_cov H K (forecast_cov M P)],
              kalman_gains = kalman_gains st @ [K]\<rparr>"
proof -
  from M P sym obtain a b d where Pf: "forecast_cov M P = [[a, b], [b, d]]"
    by (rule forecast_cov_symmetric)
  from H obtain h1 h2 where Hh: "H = [[h1, h2]]"
    by (rule is_mat_1_2E)
  define s where "s = R + ((h1 * a + h2 * b) * h1 + (h1 * b + h2 * d) * h2)"
  from S have s: "s \<noteq> 0"
    by (simp add: Pf Hh innovation_cov_1x1 s_def)
  let ?K = "[[(h1 * a + h2 * b) / s], [(h1 * b + h2 * d) / s]]"
  have sol: "solve (sadd R (mT (matmul (matmul [[h1, h2]] [[a, b], [b, d]]) [[h1], [h2]])))
        (matmul [[h1, h2]] (mT [[a, b], [b, d]]))
      = Inr [[(h1 * a + h2 * b) / s, (h1 * b + h2 * d) / s]]"
    using solve_gain_2x2 [of R h1 h2 a b b d] s by (simp add: Let_def s_def mT_row)
  have 1: "is_mat 2 1 ?K"
    by (simp add: is_mat_def)
  have 2: "is_gain ?K H R (forecast_cov M P)"
    using s by (simp add: is_gain_def Pf Hh innovation_cov_1x1 s_def [symmetric] arr)
  have 3: "solve (sadd R (mT (matmul (matmul H (forecast_cov M P)) (mT H))))
              (matmul H (mT (forecast_cov M P))) = Inr (mT ?K)"
    using sol by (simp add: Pf Hh mT_row arr)
  have 4: "kalman_step M H R ys k st =
         Inr \<lparr>kalman_mus = kalman_mus st @ [correct_mean H ?K (forecast_mean M mu) (ys ! k)],
              kalman_Ps = kalman_Ps st @ [correct_cov H ?K (forecast_cov M P)],
              kalman_gains = kalman_gains st @ [?K]\<rparr>"
    using mus Ps k sol by (simp add: kalman_step_unfold Let_def Pf Hh mT_row)
  from 1 2 3 4 show ?thesis
    by blast
qed

theorem kalman_step_transition_witness:
  "is_mat 2 2 [[1, 1], [0, 1]] \<and> is_mat 1 2 [[1, 0]] \<and> is_mat 2 1 [[0], [0]]
   \<and> is_mat 2 2 (identity 2) \<and> symmetric (identity 2)
   \<and> kalman_mus kalman_init \<noteq> [] \<and> last (kalman_mus kalman_init) = [[0], [0]]
   \<and> kalman_Ps kalman_init \<noteq> [] \<and> last (kalman_Ps kalman_init) = identity 2
   \<and> 0 < length [[1::real]] \<and> length ([[1::real]] ! 0) = 1
   \<and> innovation_cov [[1, 0]] 1 (forecast_cov [[1, 1], [0, 1]] (identity 2)) \<noteq> [[0]]
   \<and> is_gain [[2 / 3], [1 / 3]] [[1, 0]] 1 (forecast_cov [[1, 1], [0, 1]] (identity 2))
   \<and> kalman_step [[1, 1], [0, 1]] [[1, 0]] 1 [[1]] 0 kalman_init
       = Inr \<lparr>kalman_mus = [[[0], [0]], [[2 / 3], [1 / 3]]],
              kalman_Ps = [[[1, 0], [0, 1]], [[2 / 3, 1 / 3], [1 / 3, 2 / 3]]],
              kalman_gains = [[[2 / 3], [1 / 3]]]\<rparr>"
proof -
  have M: "is_mat 2 2 [[1, 1], [0, 1]]" and H: "is_mat 1 2 [[1, 0]]"
    and mu: "is_mat 2 1 [[0], [0]]"
    and P: "is_mat 2 2 (identity 2)" and sym: "symmetric (identity 2)"
    by (simp_all add: is_mat_def identity_2 symmetric_2x2)
  have mus: "kalman_mus kalman_init \<noteq> []" "last (kalman_mus kalman_init) = [[0], [0]]"
    and Ps: "kalman_Ps kalman_init \<noteq> []" "last (kalman_Ps kalman_init) = identity 2"
    by (simp_all add: kalman_init_def arr)
  have k: "0 < length [[1::real]]" and y: "length ([[1::real]] ! 0) = 1"
    by simp_all
  have S: "innovation_cov [[1, 0]] 1 (forecast_cov [[1, 1], [0, 1]] (identity 2)) \<noteq> [[0]]"
    by (simp add: identity_2 forecast_cov_2x2 innovation_cov_1x1)
  have step: "kalman_step [[1, 1], [0, 1]] [[1, 0]] 1 [[1]] 0 kalman_init
       = Inr \<lparr>kalman_mus = [[[0], [0]], [[2 / 3], [1 / 3]]],
              kalman_Ps = [[[1, 0], [0, 1]], [[2 / 3, 1 / 3], [1 / 3, 2 / 3]]],
              kalman_gains = [[[2 / 3], [1 / 3]]]\<rparr>"
    by (simp add: kf_eval)
  from kalman_step_transition [OF M H mu P sym mus Ps k y S]
  obtain K where gain: "is_gain K [[1, 0]] 1 (forecast_cov [[1, 1], [0, 1]] (identity 2))"
    and eq: "kalman_step [[1, 1], [0, 1]] [[1, 0]] 1 [[1]] 0 kalman_init =
         Inr \<lparr>kalman_mus = kalman_mus kalman_init
                  @ [correct_mean [[1, 0]] K (forecast_mean [[1, 1], [0, 1]] [[0], [0]]) ([[1]] ! 0)],
              kalman_Ps = kalman_Ps kalman_init
                  @ [correct_cov [[1, 0]] K (forecast_cov [[1, 1], [0, 1]] (identity 2))],
              kalman_gains = kalman_gains kalman_init @ [K]\<rparr>"
    by blast
  have "kalman_gains (final_state (kalman_step [[1, 1], [0, 1]] [[1, 0]] 1 [[1]] 0 kalman_init)) = [K]"
    unfolding eq by (simp add: final_state_def kalman_init_def)
  moreover have "kalman_gains (final_state (kalman_step [[1, 1], [0, 1]] [[1, 0]] 1 [[1]] 0 kalman_init))
      = [[[2 / 3], [1 / 3]]]"
    unfolding step by (simp add: final_state_def)
  ultimately have "K = [[2 / 3], [1 / 3]]"
    by simp
  with gain M H mu P sym mus Ps k y S step show ?thesis
    by blast
qed

subsection \<open>Positive semidefiniteness through one step\<close>

lemma forecast_cov_psd:
  assumes "psd [[a, b], [c, d]]"
  shows "psd (forecast_cov [[m11, m12], [m21, m22]] [[a, b], [c, d]])"
proof -
  from assms have bc: "b = c" and "\<forall>x y. 0 \<le> x * (a * x + b * y) + y * (c * x + d * y)"
    unfolding psd_2x2_quad by blast+
  then have q: "0 \<le> x * (a * x + b * y) + y * (c * x + d * y)" for x y
    by blast
  show ?thesis
    unfolding forecast_cov_2x2 psd_2x2_quad
  proof (intro conjI allI)
    show "(m11 * a + m12 * c) * m21 + (m11 * b + m12 * d) * m22
        = (m21 * a + m22 * c) * m11 + (m21 * b + m22 * d) * m12"
      using bc by (simp add: algebra_simps)
  next
    fix x y
    have "x * (((m11 * a + m12 * c) * m11 + (m11 * b + m12 * d) * m12) * x
             + ((m11 * a + m12 * c) * m21 + (m11 * b + m12 * d) * m22) * y)
        + y * (((m21 * a + m22 * c) * m11 + (m21 * b + m22 * d) * m12) * x
             + ((m21 * a + m22 * c) * m21 + (m21 * b + m22 * d) * m22) * y)
        = (m11 * x + m21 * y) * (a * (m11 * x + m21 * y) + b * (m12 * x + m22 * y))
        + (m12 * x + m22 * y) * (c * (m11 * x + m21 * y) + d * (m12 * x + m22 * y))"
      by (simp add: algebra_simps)
    with q [of "m11 * x + m21 * y" "m12 * x + m22 * y"]
    show "0 \<le> x * (((m11 * a + m12 * c) * m11 + (m11 * b + m12 * d) * m12) * x
             + ((m11 * a + m12 * c) * m21 + (m11 * b + m12 * d) * m22) * y)
        + y * (((m21 * a + m22 * c) * m11 + (m21 * b + m22 * d) * m12) * x
             + ((m21 * a + m22 * c) * m21 + (m21 * b + m22 * d) * m22) * y)"
      by simp
  qed
qed

lemma innovation_pos:
  assumes psd: "psd [[a, b], [c, d]]" and R: "0 \<le> R"
    and s: "s = R + ((h1 * a + h2 * c) * h1 + (h1 * b + h2 * d) * h2)" and ne: "s \<noteq> 0"
  shows "0 < s"
proof -
  from psd have "\<forall>x y. 0 \<le> x * (a * x + b * y) + y * (c * x + d * y)"
    unfolding psd_2x2_quad by blast
  then have "0 \<le> h1 * (a * h1 + b * h2) + h2 * (c * h1 + d * h2)"
    by blast
  also have "\<dots> = (h1 * a + h2 * c) * h1 + (h1 * b + h2 * d) * h2"
    by (simp add: algebra_simps)
  finally have "0 \<le> s" using R s by simp
  with ne show ?thesis by simp
qed

lemma correct_cov_psd:
  assumes psd: "psd [[a, b], [c, d]]" and R: "0 \<le> R"
    and s: "s = R + ((h1 * a + h2 * c) * h1 + (h1 * b + h2 * d) * h2)" and ne: "s \<noteq> 0"
  shows "psd (correct_cov [[h1, h2]] [[(h1 * a + h2 * b) / s], [(h1 * c + h2 * d) / s]] [[a, b], [c, d]])"
proof -
  from psd have bc: "c = b" and a: "0 \<le> a" and d: "0 \<le> d" and det: "0 \<le> a * d - b * b"
    by (auto simp add: psd_2x2_iff)
  have pos: "0 < s" using psd R s ne by (rule innovation_pos)
  define u1 where "u1 = h1 * a + h2 * b"
  define u2 where "u2 = h1 * b + h2 * d"
  have s': "s = R + (u1 * h1 + u2 * h2)"
    using s bc by (simp add: u1_def u2_def)
  have A: "s * (a - u1 / s * u1) = R * a + h2 * h2 * (a * d - b * b)"
    using ne by (simp add: field_simps s' u1_def u2_def)
  have D: "s * (d - u2 / s * u2) = R * d + h1 * h1 * (a * d - b * b)"
    using ne by (simp add: field_simps s' u1_def u2_def)
  have sX: "s * (a - u1 / s * u1) = s * a - u1 * u1"
    and sZ: "s * (d - u2 / s * u2) = s * d - u2 * u2"
    and sY: "s * (b - u1 / s * u2) = s * b - u1 * u2"
    and sY': "s * (b - u2 / s * u1) = s * b - u1 * u2"
    using ne by (simp_all add: field_simps)
  have P1: "(s * a - u1 * u1) * (s * d - u2 * u2) - (s * b - u1 * u2) * (s * b - u1 * u2)
      = s * (s * (a * d - b * b) - (a * (u2 * u2) - 2 * b * (u1 * u2) + d * (u1 * u1)))"
    by (simp add: algebra_simps)
  have P2: "a * (u2 * u2) - 2 * b * (u1 * u2) + d * (u1 * u1) = (a * d - b * b) * (u1 * h1 + u2 * h2)"
    by (simp add: u1_def u2_def algebra_simps)
  have P3: "s * (a * d - b * b) - (a * d - b * b) * (u1 * h1 + u2 * h2) = R * (a * d - b * b)"
    by (simp add: s' algebra_simps)
  have "(s * (a - u1 / s * u1)) * (s * (d - u2 / s * u2))
        - (s * (b - u1 / s * u2)) * (s * (b - u2 / s * u1)) = s * (R * (a * d - b * b))"
    unfolding sX sZ sY sY' P1 P2 P3 ..
  then have Det: "s * s * ((a - u1 / s * u1) * (d - u2 / s * u2) - (b - u1 / s * u2) * (b - u2 / s * u1))
      = s * (R * (a * d - b * b))"
    by (simp only: algebra_simps)
  have "0 \<le> s * (a - u1 / s * u1)"
    unfolding A using R a det by simp
  then have A0: "0 \<le> a - u1 / s * u1"
    using pos by (simp add: zero_le_mult_iff)
  have "0 \<le> s * (d - u2 / s * u2)"
    unfolding D using R d det by simp
  then have D0: "0 \<le> d - u2 / s * u2"
    using pos by (simp add: zero_le_mult_iff)
  have "0 \<le> s * s * ((a - u1 / s * u1) * (d - u2 / s * u2) - (b - u1 / s * u2) * (b - u2 / s * u1))"
    unfolding Det using R det pos by simp
  moreover have "0 < s * s" using pos by simp
  ultimately have "0 \<le> (a - u1 / s * u1) * (d - u2 / s * u2) - (b - u1 / s * u2) * (b - u2 / s * u1)"
    by (simp only: zero_le_mult_iff) auto
  then have Det0: "(b - u1 / s * u2) * (b - u2 / s * u1) \<le> (a - u1 / s * u1) * (d - u2 / s * u2)"
    by simp
  have "psd [[a - u1 / s * u1, b - u1 / s * u2], [b - u2 / s * u1, d - u2 / s * u2]]"
    unfolding psd_2x2_iff using A0 D0 Det0 by simp
  then show ?thesis
    unfolding correct_cov_2x2 bc u1_def u2_def by (simp add: algebra_simps)
qed

lemma correct_cov_loewner:
  assumes psd: "psd [[a, b], [c, d]]" and R: "0 \<le> R"
    and s: "s = R + ((h1 * a + h2 * c) * h1 + (h1 * b + h2 * d) * h2)" and ne: "s \<noteq> 0"
  shows "psd (msub [[a, b], [c, d]]
     (correct_cov [[h1, h2]] [[(h1 * a + h2 * b) / s], [(h1 * c + h2 * d) / s]] [[a, b], [c, d]]))"
proof -
  from psd have bc: "c = b"
    by (simp add: psd_2x2_iff)
  have pos: "0 < s" using psd R s ne by (rule innovation_pos)
  define u1 where "u1 = h1 * a + h2 * b"
  define u2 where "u2 = h1 * b + h2 * d"
  have "0 \<le> u1 / s * u1" "0 \<le> u2 / s * u2"
    using pos by simp_all
  moreover have "u1 / s * u2 * (u2 / s * u1) \<le> u1 / s * u1 * (u2 / s * u2)"
    by (simp add: mult.commute mult.left_commute)
  moreover have "u1 / s * u2 = u2 / s * u1"
    by simp
  ultimately have "psd [[u1 / s * u1, u1 / s * u2], [u2 / s * u1, u2 / s * u2]]"
    unfolding psd_2x2_iff by blast
  then show ?thesis
    unfolding correct_cov_2x2 bc u1_def u2_def by (simp add: msub_def algebra_simps)
qed

lemma forecast_cov_shape:
  assumes "is_mat 2 2 M" and "is_mat 2 2 P" and "psd P"
  obtains a b c d where "forecast_cov M P = [[a, b], [c, d]]" and "psd [[a, b], [c, d]]"
proof -
  from assms(1) obtain m11 m12 m21 m22 where M: "M = [[m11, m12], [m21, m22]]"
    by (rule is_mat_2_2E)
  from assms(2) obtain a b c d where P: "P = [[a, b], [c, d]]"
    by (rule is_mat_2_2E)
  have "psd (forecast_cov M P)"
    using assms(3) unfolding M P by (rule forecast_cov_psd)
  then show thesis
    using that unfolding M P forecast_cov_2x2 by blast
qed

lemma kalman_step_cov:
  assumes M: "is_mat 2 2 M" and H: "is_mat 1 2 H" and R: "0 \<le> R"
    and ne: "kalman_Ps st \<noteq> []"
    and P: "is_mat 2 2 (last (kalman_Ps st))" "psd (last (kalman_Ps st))"
  shows "case kalman_step M H R ys k st of
           Inl (e, st') \<Rightarrow> kalman_Ps st' = kalman_Ps st
         | Inr st' \<Rightarrow> \<exists>P'. kalman_Ps st' = kalman_Ps st @ [P'] \<and> is_mat 2 2 P' \<and> psd P'
               \<and> loewner_le P' (forecast_cov M (last (kalman_Ps st)))"
proof -
  from M P obtain a b c d
    where Pf: "forecast_cov M (last (kalman_Ps st)) = [[a, b], [c, d]]"
      and psd: "psd [[a, b], [c, d]]"
    by (rule forecast_cov_shape)
  from H obtain h1 h2 where Hh: "H = [[h1, h2]]"
    by (rule is_mat_1_2E)
  define s where "s = R + ((h1 * a + h2 * c) * h1 + (h1 * b + h2 * d) * h2)"
  let ?K = "[[(h1 * a + h2 * b) / s], [(h1 * c + h2 * d) / s]]"
  have sol: "solve (sadd R (mT (matmul (matmul [[h1, h2]] [[a, b], [c, d]]) [[h1], [h2]])))
        (matmul [[h1, h2]] (mT [[a, b], [c, d]]))
      = (if s = 0 then Inl LinAlgError else Inr [[(h1 * a + h2 * b) / s, (h1 * c + h2 * d) / s]])"
    using solve_gain_2x2 [of R h1 h2 a b c d] by (simp add: Let_def s_def mT_row)
  show ?thesis
  proof (cases "s = 0")
    case True
    then show ?thesis
      by (simp add: kalman_step_unfold Pf sol Let_def mT_row Hh)
  next
    case False
    have 1: "psd (correct_cov [[h1, h2]] ?K [[a, b], [c, d]])"
      using psd R s_def False by (rule correct_cov_psd)
    have 2: "loewner_le (correct_cov [[h1, h2]] ?K [[a, b], [c, d]]) [[a, b], [c, d]]"
      unfolding loewner_le_def using psd R s_def False by (rule correct_cov_loewner)
    have 3: "is_mat 2 2 (correct_cov [[h1, h2]] ?K [[a, b], [c, d]])"
      by (simp add: correct_cov_2x2)
    from False 1 2 3 show ?thesis
      by (simp add: kalman_step_unfold Pf sol Let_def mT_row Hh)
  qed
qed

subsection \<open>Covariances along a run\<close>

lemma cov_inv_init: "cov_inv M (kalman_Ps kalman_init)"
  by (simp add: cov_inv_def kalman_init_def identity_2 psd_2x2_iff)

lemma cov_inv_snoc:
  assumes "cov_inv M Ps" and "is_mat 2 2 P'" and "psd P'"
    and "loewner_le P' (forecast_cov M (last Ps))"
  shows "cov_inv M (Ps @ [P'])"
proof -
  from assms(1) have ne: "Ps \<noteq> []" and all: "\<forall>P \<in> set Ps. is_mat 2 2 P \<and> psd P"
    and mono: "\<forall>k. Suc k < length Ps \<longrightarrow> loewner_le (Ps ! Suc k) (forecast_cov M (Ps ! k))"
    by (simp_all add: cov_inv_def)
  have "loewner_le ((Ps @ [P']) ! Suc k) (forecast_cov M ((Ps @ [P']) ! k))"
    if "Suc k < length (Ps @ [P'])" for k
  proof (cases "Suc k < length Ps")
    case True
    then show ?thesis using mono by (simp add: nth_append)
  next
    case False
    with that have k: "Suc k = length Ps" by simp
    then have "Ps ! k = last Ps"
      using ne by (metis diff_Suc_1 last_conv_nth)
    with k assms(4) show ?thesis by (simp add: nth_append)
  qed
  with ne all assms(2,3) show ?thesis
    by (simp add: cov_inv_def)
qed

lemma kalman_step_inv:
  assumes "is_mat 2 2 M" and "is_mat 1 2 H" and "0 \<le> R" and inv: "cov_inv M (kalman_Ps st)"
  shows "cov_inv M (kalman_Ps (final_state (kalman_step M H R ys k st)))"
proof -
  from inv have ne: "kalman_Ps st \<noteq> []"
    and "is_mat 2 2 (last (kalman_Ps st))" "psd (last (kalman_Ps st))"
    by (simp_all add: cov_inv_def)
  with assms(1-3) have *: "case kalman_step M H R ys k st of
           Inl (e, st') \<Rightarrow> kalman_Ps st' = kalman_Ps st
         | Inr st' \<Rightarrow> \<exists>P'. kalman_Ps st' = kalman_Ps st @ [P'] \<and> is_mat 2 2 P' \<and> psd P'
               \<and> loewner_le P' (forecast_cov M (last (kalman_Ps st)))"
    by (rule kalman_step_cov)
  show ?thesis
  proof (cases "kalman_step M H R ys k st")
    case (Inl a)
    with * inv show ?thesis by (cases a) (simp add: final_state_def)
  next
    case (Inr st')
    with * obtain P' where "kalman_Ps st' = kalman_Ps st @ [P']" "is_mat 2 2 P'" "psd P'"
      "loewner_le P' (forecast_cov M (last (kalman_Ps st)))"
      by auto
    with inv Inr show ?thesis
      by (simp add: final_state_def cov_inv_snoc)
  qed
qed

lemma kalman_loop_inv:
  assumes "is_mat 2 2 M" and "is_mat 1 2 H" and "0 \<le> R"
  shows "cov_inv M (kalman_Ps st) \<Longrightarrow> cov_inv M (kalman_Ps (final_state (kalman_loop M H R ys ks st)))"
proof (induction ks arbitrary: st)
  case Nil
  then show ?case by (simp add: final_state_def)
next
  case (Cons k ks)
  from assms Cons.prems have step: "cov_inv M (kalman_Ps (final_state (kalman_step M H R ys k st)))"
    by (rule kalman_step_inv)
  show ?case
  proof (cases "kalman_step M H R ys k st")
    case (Inl a)
    with step show ?thesis by simp
  next
    case (Inr st')
    with step have "cov_inv M (kalman_Ps st')" by (simp add: final_state_def)
    then have "cov_inv M (kalman_Ps (final_state (kalman_loop M H R ys ks st')))"
      by (rule Cons.IH)
    with Inr show ?thesis by simp
  qed
qed

lemma kalman_filter_inv:
  assumes "is_mat 2 2 M" and "is_mat 1 2 H" and "0 \<le> R"
  shows "cov_inv M (kalman_Ps (final_state (kalman_filter M H R T ys)))"
  unfolding kalman_filter_def using assms cov_inv_init by (rule kalman_loop_inv)

lemma run_example:
  "kalman_filter [[1, 1], [0, 1]] [[1, 0]] 1 2 [[1], [2]] =
     Inr \<lparr>kalman_mus = [[[0], [0]], [[2 / 3], [1 / 3]], [[5 / 3], [2 / 3]]],
          kalman_Ps = [[[1, 0], [0, 1]], [[2 / 3, 1 / 3], [1 / 3, 2 / 3]],
                       [[2 / 3, 1 / 3], [1 / 3, 1 / 3]]],
          kalman_gains = [[[2 / 3], [1 / 3]], [[2 / 3], [1 / 3]]]\<rparr>"
  by (simp add: kf_eval)

text \<open>
  C2. For a 2 by 2 transition matrix, a 1 by 2 measurement matrix, a measurement noise
  variance \<open>R \<ge> 0\<close> and observations of one entry, every corrected covariance the filter stores is dominated in the
  Loewner order by the forecast covariance it was corrected from: for consecutive entries
  \<open>P\<^sub>k\<close>, \<open>P\<^sub>k\<^sub>+\<^sub>1\<close> of the list, \<open>M P\<^sub>k M\<^sup>T - P\<^sub>k\<^sub>+\<^sub>1\<close> is positive semidefinite. This holds
  for the list as the loop leaves it, also when a step raised.
\<close>

theorem covariance_monotone:
  assumes "is_mat 2 2 M" and "is_mat 1 2 H" and "0 \<le> R" and "\<forall>y \<in> set ys. length y = 1"
  shows "\<forall>k. Suc k < length (kalman_Ps (final_state (kalman_filter M H R T ys))) \<longrightarrow>
     loewner_le (kalman_Ps (final_state (kalman_filter M H R T ys)) ! Suc k)
       (forecast_cov M (kalman_Ps (final_state (kalman_filter M H R T ys)) ! k))"
  using kalman_filter_inv [OF assms(1-3), of T ys] by (simp add: cov_inv_def)

theorem covariance_monotone_witness:
  "is_mat 2 2 [[1, 1], [0, 1]] \<and> is_mat 1 2 [[1, 0]] \<and> (0::real) \<le> 1
   \<and> length [1::real] = 1 \<and> length [2::real] = 1
   \<and> kalman_Ps (final_state (kalman_filter [[1, 1], [0, 1]] [[1, 0]] 1 2 [[1], [2]]))
       = [[[1, 0], [0, 1]], [[2 / 3, 1 / 3], [1 / 3, 2 / 3]], [[2 / 3, 1 / 3], [1 / 3, 1 / 3]]]
   \<and> forecast_cov [[1, 1], [0, 1]] [[2 / 3, 1 / 3], [1 / 3, 2 / 3]] = [[2, 1], [1, 2 / 3]]
   \<and> loewner_le [[2 / 3, 1 / 3], [1 / 3, 1 / 3]] [[2, 1], [1, 2 / 3]]"
proof -
  have M: "is_mat 2 2 [[1, 1], [0, 1]]" and H: "is_mat 1 2 [[1, 0]]" and R: "(0::real) \<le> 1"
    and ys: "\<forall>y \<in> set [[1], [2::real]]. length y = 1"
    by (simp_all add: is_mat_def)
  have Ps: "kalman_Ps (final_state (kalman_filter [[1, 1], [0, 1]] [[1, 0]] 1 2 [[1], [2]]))
       = [[[1, 0], [0, 1]], [[2 / 3, 1 / 3], [1 / 3, 2 / 3]], [[2 / 3, 1 / 3], [1 / 3, 1 / 3]]]"
    by (simp add: run_example final_state_def)
  have Pf: "forecast_cov [[1, 1], [0, 1]] [[2 / 3, 1 / 3], [1 / 3, 2 / 3]] = [[2, 1], [1, 2 / 3]]"
    by (simp add: forecast_cov_2x2)
  from covariance_monotone [OF M H R ys, of 2]
  have "Suc 1 < length [[[1, 0], [0, 1]], [[2 / 3, 1 / 3], [1 / 3, 2 / 3]], [[2 / 3, 1 / 3], [1 / 3, 1 / 3::real]]]
     \<longrightarrow> loewner_le ([[[1, 0], [0, 1]], [[2 / 3, 1 / 3], [1 / 3, 2 / 3]], [[2 / 3, 1 / 3], [1 / 3, 1 / 3]]] ! Suc 1)
       (forecast_cov [[1, 1], [0, 1]]
         ([[[1, 0], [0, 1]], [[2 / 3, 1 / 3], [1 / 3, 2 / 3]], [[2 / 3, 1 / 3], [1 / 3, 1 / 3]]] ! 1))"
    unfolding Ps by blast
  then have "loewner_le [[2 / 3, 1 / 3], [1 / 3, 1 / 3]] [[2, 1], [1, 2 / 3]]"
    by (simp add: Pf)
  with M H R Ps Pf show ?thesis
    by simp
qed

text \<open>
  C3. Under the same conditions every stored covariance \<open>P\<^sub>k\<close>, from the initial identity
  on, is a symmetric positive semidefinite 2 by 2 matrix. The update of the script
  (\<^const>\<open>kalman_step\<close>) contains no symmetrisation or other repair, so the property comes
  from the update itself.
\<close>

theorem covariance_psd:
  assumes "is_mat 2 2 M" and "is_mat 1 2 H" and "0 \<le> R" and "\<forall>y \<in> set ys. length y = 1"
  shows "\<forall>P \<in> set (kalman_Ps (final_state (kalman_filter M H R T ys))).
           is_mat 2 2 P \<and> symmetric P \<and> psd P"
  using kalman_filter_inv [OF assms(1-3), of T ys] by (simp add: cov_inv_def psd_def)

theorem covariance_psd_witness:
  "is_mat 2 2 [[1, 1], [0, 1]] \<and> is_mat 1 2 [[1, 0]] \<and> (0::real) \<le> 1
   \<and> length [1::real] = 1 \<and> length [2::real] = 1
   \<and> kalman_Ps (final_state (kalman_filter [[1, 1], [0, 1]] [[1, 0]] 1 2 [[1], [2]])) ! 2
       = [[2 / 3, 1 / 3], [1 / 3, 1 / 3]]
   \<and> symmetric [[2 / 3, 1 / 3], [1 / 3, 1 / 3]] \<and> psd [[2 / 3, 1 / 3], [1 / 3, 1 / 3]]"
proof -
  have M: "is_mat 2 2 [[1, 1], [0, 1]]" and H: "is_mat 1 2 [[1, 0]]" and R: "(0::real) \<le> 1"
    and ys: "\<forall>y \<in> set [[1], [2::real]]. length y = 1"
    by (simp_all add: is_mat_def)
  have Ps: "kalman_Ps (final_state (kalman_filter [[1, 1], [0, 1]] [[1, 0]] 1 2 [[1], [2]]))
       = [[[1, 0], [0, 1]], [[2 / 3, 1 / 3], [1 / 3, 2 / 3]], [[2 / 3, 1 / 3], [1 / 3, 1 / 3]]]"
    by (simp add: run_example final_state_def)
  from covariance_psd [OF M H R ys, of 2]
  have "symmetric [[2 / 3, 1 / 3], [1 / 3, 1 / 3]] \<and> psd [[2 / 3, 1 / 3], [1 / 3, 1 / 3]]"
    unfolding Ps by simp
  with M H R Ps show ?thesis
    by simp
qed

subsection \<open>Lengths of the lists\<close>

lemma kalman_loop_append:
  "kalman_loop M H R ys (ks1 @ ks2) st =
     (case kalman_loop M H R ys ks1 st of Inl e \<Rightarrow> Inl e | Inr st' \<Rightarrow> kalman_loop M H R ys ks2 st')"
  by (induction ks1 arbitrary: st) (simp_all split: sum.splits)

lemma kalman_step_lengths:
  assumes "kalman_step M H R ys k st = Inr st'"
  shows "length (kalman_mus st') = Suc (length (kalman_mus st))
       \<and> length (kalman_Ps st') = Suc (length (kalman_Ps st))
       \<and> length (kalman_gains st') = Suc (length (kalman_gains st))"
  using assms by (auto simp add: kalman_step_unfold Let_def split: if_splits sum.splits)

lemma kalman_loop_lengths:
  "kalman_loop M H R ys ks st = Inr st' \<Longrightarrow>
     length (kalman_mus st') = length (kalman_mus st) + length ks
   \<and> length (kalman_Ps st') = length (kalman_Ps st) + length ks
   \<and> length (kalman_gains st') = length (kalman_gains st) + length ks"
proof (induction ks arbitrary: st)
  case Nil
  then show ?case by simp
next
  case (Cons k ks)
  then obtain st1 where 1: "kalman_step M H R ys k st = Inr st1"
    and 2: "kalman_loop M H R ys ks st1 = Inr st'"
    by (auto split: sum.splits)
  from kalman_step_lengths [OF 1] Cons.IH [OF 2] show ?case
    by simp
qed

subsection \<open>The script on small inputs\<close>

lemmas cfgs = small_cfg_def bad_cfg_def neg_cfg_def draws_a_def draws_b_def draws_c_def draws_d_def
  no_noise_def unit_noise_def late_noise_def
lemmas runs = run_a_def run_b_def run_c_def run_bad_def kf_small_def
lemmas prog_eval = program_def bindE_def synth_ys_def enumerate_eq_zip matvec_def vadd_s_def
  normal_def RMSEs_def rmse_def true_xs_long_def py_take_def M_mat_def A_mat_def
  madd_def smul_def times_list_def component_def scatter_def cov_traces_def

lemma program_a: "program small_cfg draws_a = Inr run_a"
  by (simp add: prog_eval kf_eval cfgs runs)

lemma program_b: "program small_cfg draws_b = Inr run_b"
  by (simp add: prog_eval kf_eval cfgs runs)

lemma program_c: "program small_cfg draws_c = Inr run_c"
  by (simp add: prog_eval kf_eval cfgs runs)

lemma program_bad: "program bad_cfg draws_b = Inr run_bad"
  by (simp add: prog_eval kf_eval cfgs runs)

lemma program_neg: "program neg_cfg draws_c = Inl ValueError"
  by (simp add: prog_eval kf_eval cfgs runs)

subsection \<open>Estimates and the observations they use\<close>

lemma kalman_step_InrD:
  assumes "kalman_step M H R ys k st = Inr st'"
  shows "k < length ys \<and> kalman_mus st \<noteq> [] \<and> kalman_Ps st \<noteq> []
     \<and> (\<exists>K. kalman_gains st' = kalman_gains st @ [K]
          \<and> kalman_mus st' = kalman_mus st
               @ [correct_mean H K (forecast_mean M (last (kalman_mus st))) (ys ! k)]
          \<and> kalman_Ps st' = kalman_Ps st
               @ [correct_cov H K (forecast_cov M (last (kalman_Ps st)))])"
  using assms by (auto simp add: kalman_step_unfold Let_def split: if_splits sum.splits)

lemma offset_inv_init: "offset_inv M H ys kalman_init"
  by (simp add: offset_inv_def kalman_init_def)

lemma offset_inv_step:
  assumes inv: "offset_inv M H ys st"
    and step: "kalman_step M H R ys (length (kalman_gains st)) st = Inr st'"
  shows "offset_inv M H ys st' \<and> length (kalman_gains st') = Suc (length (kalman_gains st))"
proof -
  let ?n = "length (kalman_gains st)"
  from inv have lm: "length (kalman_mus st) = Suc ?n" and lp: "length (kalman_Ps st) = Suc ?n"
    and old: "\<forall>k < ?n. k < length ys
        \<and> kalman_mus st ! Suc k
            = correct_mean H (kalman_gains st ! k) (forecast_mean M (kalman_mus st ! k)) (ys ! k)
        \<and> kalman_Ps st ! Suc k
            = correct_cov H (kalman_gains st ! k) (forecast_cov M (kalman_Ps st ! k))"
    by (simp_all add: offset_inv_def)
  from kalman_step_InrD [OF step] obtain K where n: "?n < length ys"
    and g: "kalman_gains st' = kalman_gains st @ [K]"
    and m: "kalman_mus st' = kalman_mus st
               @ [correct_mean H K (forecast_mean M (last (kalman_mus st))) (ys ! ?n)]"
    and p: "kalman_Ps st' = kalman_Ps st
               @ [correct_cov H K (forecast_cov M (last (kalman_Ps st)))]"
    by blast
  have lastm: "last (kalman_mus st) = kalman_mus st ! ?n"
    using lm by (metis diff_Suc_1 last_conv_nth length_0_conv nat.distinct(1))
  have lastp: "last (kalman_Ps st) = kalman_Ps st ! ?n"
    using lp by (metis diff_Suc_1 last_conv_nth length_0_conv nat.distinct(1))
  have "k < length ys
        \<and> kalman_mus st' ! Suc k
            = correct_mean H (kalman_gains st' ! k) (forecast_mean M (kalman_mus st' ! k)) (ys ! k)
        \<and> kalman_Ps st' ! Suc k
            = correct_cov H (kalman_gains st' ! k) (forecast_cov M (kalman_Ps st' ! k))"
    if "k < Suc ?n" for k
  proof (cases "k < ?n")
    case True
    with old lm lp show ?thesis
      by (simp add: g m p nth_append)
  next
    case False
    with that have "k = ?n" by simp
    with n lm lp show ?thesis
      by (simp add: g m p nth_append lastm lastp)
  qed
  then show ?thesis
    by (simp add: offset_inv_def g m p lm lp)
qed

lemma offset_inv_loop:
  "offset_inv M H ys st \<Longrightarrow>
   kalman_loop M H R ys [length (kalman_gains st)..<length (kalman_gains st) + m] st = Inr st' \<Longrightarrow>
   offset_inv M H ys st'"
proof (induction m arbitrary: st)
  case 0
  then show ?case by simp
next
  case (Suc m)
  let ?n = "length (kalman_gains st)"
  have "[?n..<?n + Suc m] = ?n # [Suc ?n..<Suc ?n + m]"
    by (simp add: upt_conv_Cons)
  with Suc.prems(2) obtain st1 where 1: "kalman_step M H R ys ?n st = Inr st1"
    and 2: "kalman_loop M H R ys [Suc ?n..<Suc ?n + m] st1 = Inr st'"
    by (auto split: sum.splits)
  from offset_inv_step [OF Suc.prems(1) 1]
  have "offset_inv M H ys st1" and "length (kalman_gains st1) = Suc ?n"
    by simp_all
  with 2 Suc.IH [of st1] show ?case
    by simp
qed

lemma kalman_filter_offset:
  assumes "kalman_filter M H R T ys = Inr st"
  shows "offset_inv M H ys st"
proof -
  have "offset_inv M H ys kalman_init"
    by (rule offset_inv_init)
  moreover have "kalman_loop M H R ys
      [length (kalman_gains kalman_init)..<length (kalman_gains kalman_init) + nat T] kalman_init = Inr st"
    using assms by (simp add: kalman_filter_def kalman_init_def)
  ultimately show ?thesis
    by (rule offset_inv_loop)
qed

lemma kalman_step_cong:
  "py_nth ys k = py_nth ys' k \<Longrightarrow> kalman_step M H R ys k st = kalman_step M H R ys' k st"
  by (simp add: kalman_step_def)

lemma kalman_loop_cong:
  "(\<forall>k \<in> set ks. py_nth ys k = py_nth ys' k) \<Longrightarrow>
     kalman_loop M H R ys ks st = kalman_loop M H R ys' ks st"
proof (induction ks arbitrary: st)
  case Nil
  then show ?case by simp
next
  case (Cons k ks)
  then have "kalman_step M H R ys k st = kalman_step M H R ys' k st"
    by (simp add: kalman_step_def)
  with Cons show ?case
    by (simp split: sum.splits)
qed

lemma py_nth_take:
  assumes "take n ys' = take n ys" and "k < n"
  shows "py_nth ys' k = py_nth ys k"
proof -
  have len: "min n (length ys') = min n (length ys)"
    using assms(1) by (metis length_take min.commute)
  show ?thesis
  proof (cases "k < length ys")
    case True
    with len assms(2) have "k < length ys'" by (simp add: min_def split: if_splits)
    moreover have "ys' ! k = ys ! k"
      using assms by (metis nth_take)
    ultimately show ?thesis using True by (simp add: py_nth_def)
  next
    case False
    with len assms(2) have "\<not> k < length ys'" by (simp add: min_def split: if_splits)
    with False show ?thesis by (simp add: py_nth_def)
  qed
qed

lemma kalman_filter_take:
  assumes "take n ys' = take n ys"
  shows "kalman_filter M H R (int n) ys' = kalman_filter M H R (int n) ys"
  unfolding kalman_filter_def
  by (rule kalman_loop_cong) (simp add: py_nth_take [OF assms])

lemma kalman_loop_prefix:
  "kalman_loop M H R ys ks st = Inr st' \<Longrightarrow>
     take (length (kalman_mus st)) (kalman_mus st') = kalman_mus st
   \<and> take (length (kalman_Ps st)) (kalman_Ps st') = kalman_Ps st
   \<and> take (length (kalman_gains st)) (kalman_gains st') = kalman_gains st"
proof (induction ks arbitrary: st)
  case Nil
  then show ?case by simp
next
  case (Cons k ks)
  then obtain st1 where 1: "kalman_step M H R ys k st = Inr st1"
    and 2: "kalman_loop M H R ys ks st1 = Inr st'"
    by (auto split: sum.splits)
  from kalman_step_InrD [OF 1] obtain K x P where
    e: "kalman_gains st1 = kalman_gains st @ [K]" "kalman_mus st1 = kalman_mus st @ [x]"
       "kalman_Ps st1 = kalman_Ps st @ [P]"
    by blast
  have shrink: "take (length as) bs = as" if "take (Suc (length as)) bs = as @ [a]"
    for as bs :: "'a list" and a
  proof -
    have "take (length as) bs = take (length as) (take (Suc (length as)) bs)"
      by (simp add: min_def)
    also have "\<dots> = as"
      unfolding that by simp
    finally show ?thesis .
  qed
  from Cons.IH [OF 2] have
    "take (Suc (length (kalman_mus st))) (kalman_mus st') = kalman_mus st @ [x]"
    "take (Suc (length (kalman_Ps st))) (kalman_Ps st') = kalman_Ps st @ [P]"
    "take (Suc (length (kalman_gains st))) (kalman_gains st') = kalman_gains st @ [K]"
    by (simp_all add: e)
  then show ?case
    by (simp add: shrink)
qed

lemma kalman_filter_prefix:
  assumes run: "kalman_filter M H R T ys = Inr st" and j: "j \<le> nat T"
  shows "\<exists>st'. kalman_filter M H R (int j) ys = Inr st'
      \<and> kalman_mus st' = take (Suc j) (kalman_mus st)
      \<and> kalman_Ps st' = take (Suc j) (kalman_Ps st)
      \<and> kalman_gains st' = take j (kalman_gains st)"
proof -
  from j have "[0..<nat T] = [0..<j] @ [j..<nat T]"
    by (metis le_add_diff_inverse upt_add_eq_append zero_le)
  with run have *: "(case kalman_loop M H R ys [0..<j] kalman_init of
       Inl e \<Rightarrow> Inl e | Inr st' \<Rightarrow> kalman_loop M H R ys [j..<nat T] st') = Inr st"
    by (simp add: kalman_filter_def kalman_loop_append)
  then obtain st' where 1: "kalman_loop M H R ys [0..<j] kalman_init = Inr st'"
    and 2: "kalman_loop M H R ys [j..<nat T] st' = Inr st"
    by (auto split: sum.splits)
  from kalman_loop_lengths [OF 1] have len: "length (kalman_mus st') = Suc j"
    "length (kalman_Ps st') = Suc j" "length (kalman_gains st') = j"
    by (simp_all add: kalman_init_def)
  from kalman_loop_prefix [OF 2] len 1 show ?thesis
    by (simp add: kalman_filter_def)
qed

lemma collect_InrD:
  "collect f ks = Inr vs \<Longrightarrow> length vs = length ks \<and> (\<forall>i < length ks. f (ks ! i) = Inr (vs ! i))"
proof (induction ks arbitrary: vs)
  case Nil
  then show ?case by simp
next
  case (Cons k ks)
  then obtain v ws where 1: "f k = Inr v" and 2: "collect f ks = Inr ws" and 3: "vs = v # ws"
    by (auto simp add: bindE_def split: sum.splits)
  from Cons.IH [OF 2] 1 3 show ?case
    by (auto simp add: nth_Cons split: nat.splits)
qed

lemma RMSEs_InrD:
  assumes "RMSEs T xs mus = Inr rs" and "k < nat (T + 1)"
  shows "k < length xs \<and> k < length mus \<and> rmse (xs ! k) (mus ! k) = Inr (rs ! k)"
proof -
  from collect_InrD [OF assms(1) [unfolded RMSEs_def]] assms(2)
  have "bindE (py_nth xs k) (\<lambda>x. bindE (py_nth mus k) (\<lambda>mu. rmse x mu)) = Inr (rs ! k)"
    by simp
  then show ?thesis
    by (auto simp add: bindE_def py_nth_def split: if_splits)
qed

lemma length_synth_ys: "length (synth_ys H R xs g) = length xs"
  by (simp add: synth_ys_def)

lemma nth_synth_ys:
  "k < length xs \<Longrightarrow>
     synth_ys H R xs g ! k = vadd_s (matvec H (xs ! k)) (normal 0 (sqrt R) (g k))"
  by (simp add: synth_ys_def nth_enumerate_eq)

lemma bindE_Inr_iff: "bindE m f = Inr r \<longleftrightarrow> (\<exists>a. m = Inr a \<and> f a = Inr r)"
  by (cases m) (simp_all add: bindE_def)

lemma case_Inr_iff:
  "(case m of Inl (e, st) \<Rightarrow> Inl e | Inr st \<Rightarrow> g st) = Inr r \<longleftrightarrow> (\<exists>st. m = Inr st \<and> g st = Inr r)"
  by (cases m) auto

lemma program_InrD:
  assumes "program cfg d = Inr r"
  shows "true_xs (M_mat (cfg_w cfg) (cfg_xi cfg) (cfg_dt cfg)) (x0_draw d) (cfg_n cfg) (cfg_T cfg)
           = Inr (run_true_xs r)
     \<and> run_synth_ys r = synth_ys (cfg_H cfg) (cfg_R cfg) (run_true_xs r) (gauss d)
     \<and> kalman_filter (M_mat (cfg_w cfg) (cfg_xi cfg) (cfg_dt cfg)) (cfg_H cfg) (cfg_R cfg)
           (cfg_T cfg) (run_synth_ys r) = Inr (run_kf r)
     \<and> RMSEs (cfg_T cfg) (run_true_xs r) (kalman_mus (run_kf r)) = Inr (run_RMSEs r)
     \<and> run_cov_traces r = cov_traces (kalman_Ps (run_kf r))"
proof -
  let ?M = "M_mat (cfg_w cfg) (cfg_xi cfg) (cfg_dt cfg)"
  from assms have "\<exists>xs_long st rs.
      true_xs_long ?M (x0_draw d) (cfg_n cfg) (cfg_T cfg) = Inr xs_long
    \<and> kalman_filter ?M (cfg_H cfg) (cfg_R cfg) (cfg_T cfg)
        (synth_ys (cfg_H cfg) (cfg_R cfg) (py_take (cfg_T cfg + 1) xs_long) (gauss d)) = Inr st
    \<and> RMSEs (cfg_T cfg) (py_take (cfg_T cfg + 1) xs_long) (kalman_mus st) = Inr rs
    \<and> r = \<lparr>run_true_xs = py_take (cfg_T cfg + 1) xs_long,
           run_synth_ys = synth_ys (cfg_H cfg) (cfg_R cfg) (py_take (cfg_T cfg + 1) xs_long) (gauss d),
           run_kf = st, run_RMSEs = rs, run_cov_traces = cov_traces (kalman_Ps st)\<rparr>"
    by (auto simp add: program_def Let_def bindE_Inr_iff case_Inr_iff)
  then show ?thesis
    by (auto simp add: true_xs_def bindE_def)
qed

text \<open>
  C10. In a run of the script that completes (with a 1 by 2 \<open>H\<close> and a drawn \<open>x0\<close> of two
  entries), for every iteration \<open>k < T\<close>: the
  observation \<open>ys[k]\<close> is the noisy measurement of the true state \<open>xs[k]\<close>; the entries at
  index \<open>k + 1\<close> of the means and covariances are the correction, with gain \<open>k\<close> and
  observation \<open>ys[k]\<close>, of the forecast of the entries at index \<open>k\<close>; the means up to index
  \<open>k + 1\<close> are those of a run of \<open>k + 1\<close> steps on any observations that agree with \<open>ys\<close> on
  indices \<open>0, \<dots>, k\<close>, so the estimate at index \<open>k + 1\<close> depends on no later observation;
  and the RMSE at an index compares the true state and the estimate at that same index.
  (The measurements are stated for \<open>R \<ge> 0\<close>.)
\<close>

theorem estimate_observation_offset:
  assumes H: "is_mat 1 2 (cfg_H cfg)" and x0: "length (x0_draw d) = 2"
    and run: "program cfg d = Inr r" and k: "k < nat (cfg_T cfg)" and R: "0 \<le> cfg_R cfg"
  shows "let M = M_mat (cfg_w cfg) (cfg_xi cfg) (cfg_dt cfg); H = cfg_H cfg; R = cfg_R cfg;
             xs = run_true_xs r; ys = run_synth_ys r; st = run_kf r
         in Suc k < length xs \<and> k < length ys \<and> Suc k < length (kalman_mus st)
          \<and> ys ! k = vadd_s (matvec H (xs ! k)) (normal 0 (sqrt R) (gauss d k))
          \<and> kalman_mus st ! Suc k
              = correct_mean H (kalman_gains st ! k) (forecast_mean M (kalman_mus st ! k)) (ys ! k)
          \<and> kalman_Ps st ! Suc k
              = correct_cov H (kalman_gains st ! k) (forecast_cov M (kalman_Ps st ! k))
          \<and> (\<forall>ys'. take (Suc k) ys' = take (Suc k) ys \<longrightarrow>
                (\<exists>st'. kalman_filter M H R (int (Suc k)) ys' = Inr st'
                    \<and> kalman_mus st' = take (Suc (Suc k)) (kalman_mus st)))
          \<and> rmse (xs ! k) (kalman_mus st ! k) = Inr (run_RMSEs r ! k)
          \<and> rmse (xs ! Suc k) (kalman_mus st ! Suc k) = Inr (run_RMSEs r ! Suc k)"
proof -
  let ?M = "M_mat (cfg_w cfg) (cfg_xi cfg) (cfg_dt cfg)"
  let ?H = "cfg_H cfg" and ?R = "cfg_R cfg" and ?T = "cfg_T cfg"
  let ?xs = "run_true_xs r" and ?ys = "run_synth_ys r" and ?st = "run_kf r"
  from program_InrD [OF run] have ys: "?ys = synth_ys ?H ?R ?xs (gauss d)"
    and kf: "kalman_filter ?M ?H ?R ?T ?ys = Inr ?st"
    and rm: "RMSEs ?T ?xs (kalman_mus ?st) = Inr (run_RMSEs r)"
    by blast+
  from k have "k < nat (?T + 1)" and "Suc k < nat (?T + 1)"
    by simp_all
  with rm have r0: "k < length ?xs \<and> k < length (kalman_mus ?st)
       \<and> rmse (?xs ! k) (kalman_mus ?st ! k) = Inr (run_RMSEs r ! k)"
    and r1: "Suc k < length ?xs \<and> Suc k < length (kalman_mus ?st)
       \<and> rmse (?xs ! Suc k) (kalman_mus ?st ! Suc k) = Inr (run_RMSEs r ! Suc k)"
    by (simp_all only: RMSEs_InrD)
  from r0 have y: "k < length ?ys"
      "?ys ! k = vadd_s (matvec ?H (?xs ! k)) (normal 0 (sqrt ?R) (gauss d k))"
    by (simp_all add: ys length_synth_ys nth_synth_ys)
  from kalman_loop_lengths [OF kf [unfolded kalman_filter_def]]
  have "length (kalman_gains ?st) = nat ?T"
    by (simp add: kalman_init_def)
  with kalman_filter_offset [OF kf] k
  have off: "kalman_mus ?st ! Suc k
              = correct_mean ?H (kalman_gains ?st ! k) (forecast_mean ?M (kalman_mus ?st ! k)) (?ys ! k)"
       "kalman_Ps ?st ! Suc k
              = correct_cov ?H (kalman_gains ?st ! k) (forecast_cov ?M (kalman_Ps ?st ! k))"
    by (simp_all add: offset_inv_def)
  from k have "Suc k \<le> nat ?T"
    by simp
  from kalman_filter_prefix [OF kf this] obtain st1
    where p: "kalman_filter ?M ?H ?R (int (Suc k)) ?ys = Inr st1"
      "kalman_mus st1 = take (Suc (Suc k)) (kalman_mus ?st)"
    by blast
  have dep: "\<exists>st'. kalman_filter ?M ?H ?R (int (Suc k)) ys' = Inr st'
                    \<and> kalman_mus st' = take (Suc (Suc k)) (kalman_mus ?st)"
    if "take (Suc k) ys' = take (Suc k) ?ys" for ys'
    using kalman_filter_take [OF that, of ?M ?H ?R] p by simp
  from r0 r1 y off dep show ?thesis
    unfolding Let_def by blast
qed

theorem estimate_observation_offset_witness:
  "is_mat 1 2 (cfg_H small_cfg) \<and> length (x0_draw draws_c) = 2
   \<and> program small_cfg draws_c = Inr run_c \<and> 0 < nat (cfg_T small_cfg) \<and> 0 \<le> cfg_R small_cfg
   \<and> run_synth_ys run_c ! 0
       = vadd_s (matvec (cfg_H small_cfg) (run_true_xs run_c ! 0))
           (normal 0 (sqrt (cfg_R small_cfg)) (gauss draws_c 0))
   \<and> kalman_mus (run_kf run_c) ! Suc 0
       = correct_mean (cfg_H small_cfg) (kalman_gains (run_kf run_c) ! 0)
           (forecast_mean (M_mat (cfg_w small_cfg) (cfg_xi small_cfg) (cfg_dt small_cfg))
              (kalman_mus (run_kf run_c) ! 0))
           (run_synth_ys run_c ! 0)
   \<and> kalman_mus (run_kf run_c) ! Suc 0 = [[2 / 3], [0]]
   \<and> rmse (run_true_xs run_c ! Suc 0) (kalman_mus (run_kf run_c) ! Suc 0)
       = Inr (run_RMSEs run_c ! Suc 0)"
proof -
  have H: "is_mat 1 2 (cfg_H small_cfg)" and x0: "length (x0_draw draws_c) = 2"
    and k: "0 < nat (cfg_T small_cfg)" and R: "0 \<le> cfg_R small_cfg"
    by (simp_all add: small_cfg_def draws_c_def is_mat_def)
  have v: "kalman_mus (run_kf run_c) ! Suc 0 = [[2 / 3], [0]]"
    by (simp add: runs)
  from estimate_observation_offset [OF H x0 program_c k R] H x0 program_c k R v show ?thesis
    unfolding Let_def by blast
qed

subsection \<open>Randomness\<close>

lemma synth_ys_cong:
  assumes "\<forall>k < length xs. g k = g' k"
  shows "synth_ys H R xs g = synth_ys H R xs g'"
  by (rule nth_equalityI) (simp_all add: length_synth_ys nth_synth_ys assms)

lemma py_take_long:
  assumes "0 \<le> T" and "1 \<le> n"
  shows "py_take (T + 1) (map f [0..<Suc (nat (n * T))]) = map f [0..<Suc (nat T)]"
proof -
  have "T \<le> n * T"
    using assms by (simp add: mult_le_cancel_right1)
  then have "Suc (nat T) \<le> Suc (nat (n * T))"
    by simp
  moreover have "nat (T + 1) = Suc (nat T)"
    using assms by simp
  ultimately show ?thesis
    using assms by (simp add: py_take_def take_map min_def del: upt_Suc)
qed

text \<open>
  Against C6 as stated: the same configuration run on two draws that have the same
  measurement noise variates and differ in the drawn initial state gives different
  measurements and different estimates. The configuration holds no seed, and the
  measurement noise is not the only random input.
\<close>

theorem determinism_counterexample:
  "gauss draws_a = gauss draws_b
   \<and> program small_cfg draws_a = Inr run_a \<and> program small_cfg draws_b = Inr run_b
   \<and> run_synth_ys run_a \<noteq> run_synth_ys run_b
   \<and> kalman_mus (run_kf run_a) \<noteq> kalman_mus (run_kf run_b)"
  by (simp add: program_a program_b) (simp add: runs draws_a_def draws_b_def)

text \<open>
  C6, amended. The script sets no seed. Its random inputs are the initial state \<open>x0\<close>
  drawn at line 16 and the measurement noise variates of line 60. At the script's shapes,
  for \<open>R \<ge> 0\<close> and \<open>T \<ge> 0\<close> (and \<open>n \<ge> 1\<close>) two runs of one configuration whose draws agree on \<open>x0\<close> and on the first
  \<open>T + 1\<close> noise variates give the same result: true states, measurements, means,
  covariances, gains and diagnostics, or the same error.
\<close>

theorem run_determined_by_draws:
  assumes H: "is_mat 1 2 (cfg_H cfg)" and len: "length (x0_draw d1) = 2"
    and R: "0 \<le> cfg_R cfg" and T: "0 \<le> cfg_T cfg" and n: "1 \<le> cfg_n cfg"
    and x0: "x0_draw d1 = x0_draw d2"
    and g: "\<forall>k \<le> nat (cfg_T cfg). gauss d1 k = gauss d2 k"
  shows "program cfg d1 = program cfg d2"
proof -
  let ?M = "M_mat (cfg_w cfg) (cfg_xi cfg) (cfg_dt cfg)"
  let ?f = "\<lambda>k. (matvec ?M ^^ k) (x0_draw d2)"
  let ?xs = "map ?f [0..<Suc (nat (cfg_T cfg))]"
  have long: "true_xs_long ?M (x0_draw d2) (cfg_n cfg) (cfg_T cfg)
      = Inr (map ?f [0..<Suc (nat (cfg_n cfg * cfg_T cfg))])"
    by (rule true_xs_long_eq)
  have take: "py_take (cfg_T cfg + 1) (map ?f [0..<Suc (nat (cfg_n cfg * cfg_T cfg))]) = ?xs"
    using T n by (rule py_take_long)
  have "\<forall>k < length ?xs. gauss d1 k = gauss d2 k"
    using g by simp
  then have ys: "synth_ys (cfg_H cfg) (cfg_R cfg) ?xs (gauss d1)
      = synth_ys (cfg_H cfg) (cfg_R cfg) ?xs (gauss d2)"
    by (rule synth_ys_cong)
  show ?thesis
    unfolding program_def Let_def x0 long bindE_def sum.case take ys by (rule refl)
qed

theorem run_determined_by_draws_witness:
  "is_mat 1 2 (cfg_H small_cfg) \<and> length (x0_draw draws_c) = 2 \<and> 0 \<le> cfg_R small_cfg
   \<and> 0 \<le> cfg_T small_cfg \<and> 1 \<le> cfg_n small_cfg
   \<and> x0_draw draws_c = x0_draw draws_d
   \<and> gauss draws_c 0 = gauss draws_d 0 \<and> gauss draws_c 1 = gauss draws_d 1
   \<and> gauss draws_c 2 \<noteq> gauss draws_d 2
   \<and> program small_cfg draws_c = program small_cfg draws_d"
proof -
  have H: "is_mat 1 2 (cfg_H small_cfg)" and len: "length (x0_draw draws_c) = 2"
    and R: "0 \<le> cfg_R small_cfg"
    and T: "0 \<le> cfg_T small_cfg" and n: "1 \<le> cfg_n small_cfg"
    by (simp_all add: small_cfg_def draws_c_def is_mat_def)
  have x0: "x0_draw draws_c = x0_draw draws_d"
    by (simp add: draws_c_def draws_d_def)
  have g: "\<forall>k \<le> nat (cfg_T small_cfg). gauss draws_c k = gauss draws_d k"
    by (simp add: cfgs)
  have "gauss draws_c 0 = gauss draws_d 0" "gauss draws_c 1 = gauss draws_d 1"
    "gauss draws_c 2 \<noteq> gauss draws_d 2"
    by (simp_all add: cfgs)
  with run_determined_by_draws [OF H len R T n x0 g] H len R T n x0 show ?thesis
    by blast
qed

subsection \<open>Configuration\<close>

lemma shape_inv_init: "shape_inv kalman_init"
  by (simp add: shape_inv_def kalman_init_def identity_2 arr is_mat_def)

lemma correct_mean_2x1:
  "is_mat 2 1 (correct_mean [[h1, h2]] [[k1], [k2]]
      (forecast_mean [[m11, m12], [m21, m22]] [[x1], [x2]]) [y])"
  by (simp add: correct_mean_def forecast_mean_def arr is_mat_def)

lemma kalman_step_shape:
  assumes M: "is_mat 2 2 M" and H: "is_mat 1 2 H" and inv: "shape_inv st"
    and k: "k < length ys" and y: "length (ys ! k) = 1"
  shows "kalman_step M H R ys k st = Inl (LinAlgError, st)
       \<or> (\<exists>st'. kalman_step M H R ys k st = Inr st' \<and> shape_inv st')"
proof -
  from inv have ne: "kalman_mus st \<noteq> []" "kalman_Ps st \<noteq> []"
    and P: "is_mat 2 2 (last (kalman_Ps st))" and mu: "is_mat 2 1 (last (kalman_mus st))"
    by (simp_all add: shape_inv_def)
  from M obtain m11 m12 m21 m22 where Mm: "M = [[m11, m12], [m21, m22]]"
    by (rule is_mat_2_2E)
  from P obtain p11 p12 p21 p22 where Pp: "last (kalman_Ps st) = [[p11, p12], [p21, p22]]"
    by (rule is_mat_2_2E)
  from mu obtain x1 x2 where mm: "last (kalman_mus st) = [[x1], [x2]]"
    by (rule is_mat_2_1E)
  from y obtain y0 where yy: "ys ! k = [y0]"
    by (rule length_1E)
  obtain a b c d where Pf: "forecast_cov M (last (kalman_Ps st)) = [[a, b], [c, d]]"
    unfolding Mm Pp forecast_cov_2x2 by blast
  from H obtain h1 h2 where Hh: "H = [[h1, h2]]"
    by (rule is_mat_1_2E)
  define s where "s = R + ((h1 * a + h2 * c) * h1 + (h1 * b + h2 * d) * h2)"
  let ?K = "[[(h1 * a + h2 * b) / s], [(h1 * c + h2 * d) / s]]"
  have sol: "solve (sadd R (mT (matmul (matmul [[h1, h2]] [[a, b], [c, d]]) [[h1], [h2]])))
        (matmul [[h1, h2]] (mT [[a, b], [c, d]]))
      = (if s = 0 then Inl LinAlgError else Inr [[(h1 * a + h2 * b) / s, (h1 * c + h2 * d) / s]])"
    using solve_gain_2x2 [of R h1 h2 a b c d] by (simp add: Let_def s_def mT_row)
  show ?thesis
  proof (cases "s = 0")
    case True
    with ne show ?thesis
      by (simp add: kalman_step_unfold Pf sol Let_def mT_row Hh)
  next
    case False
    have 1: "is_mat 2 2 (correct_cov [[h1, h2]] ?K [[a, b], [c, d]])"
      by (simp add: correct_cov_2x2)
    have 2: "is_mat 2 1 (correct_mean [[h1, h2]] ?K (forecast_mean M (last (kalman_mus st))) (ys ! k))"
      unfolding Mm mm yy by (rule correct_mean_2x1)
    have 3: "is_mat 2 1 ?K"
      by (simp add: is_mat_def)
    from False ne k inv 1 2 3 show ?thesis
      by (simp add: kalman_step_unfold Pf sol Let_def mT_row Hh shape_inv_def)
  qed
qed

lemma kalman_loop_shape:
  assumes M: "is_mat 2 2 M" and H: "is_mat 1 2 H"
  shows "shape_inv st \<Longrightarrow> \<forall>k \<in> set ks. k < length ys \<and> length (ys ! k) = 1 \<Longrightarrow>
      (\<exists>st0. kalman_loop M H R ys ks st = Inl (LinAlgError, st0))
       \<or> (\<exists>st'. kalman_loop M H R ys ks st = Inr st' \<and> shape_inv st')"
proof (induction ks arbitrary: st)
  case Nil
  then show ?case by simp
next
  case (Cons k ks)
  from Cons.prems have "k < length ys" "length (ys ! k) = 1" by simp_all
  with M H Cons.prems(1)
  consider "kalman_step M H R ys k st = Inl (LinAlgError, st)"
    | st1 where "kalman_step M H R ys k st = Inr st1" "shape_inv st1"
    using kalman_step_shape by blast
  then show ?case
  proof cases
    case 1
    then show ?thesis by simp
  next
    case 2
    from Cons.IH [OF 2(2)] Cons.prems(2) 2(1) show ?thesis
      by simp
  qed
qed

lemma collect_Inr:
  "\<forall>k \<in> set ks. \<exists>v. f k = Inr v \<Longrightarrow> \<exists>vs. collect f ks = Inr vs"
  by (induction ks) (auto simp add: bindE_def)

lemma component_Inr:
  assumes "\<forall>x \<in> set xs. i < length x"
  shows "\<exists>zs. component i xs = Inr zs \<and> length zs = length xs
     \<and> (\<forall>j < length xs. zs ! j = xs ! j ! i)"
proof -
  have ok: "py_nth (xs ! j) i = Inr (xs ! j ! i)" if "j < length xs" for j
    using that assms by (simp add: py_nth_def)
  then have "\<forall>j \<in> set [0..<length xs]. \<exists>v. py_nth (xs ! j) i = Inr v"
    by simp
  then obtain zs where zs: "collect (\<lambda>j. py_nth (xs ! j) i) [0..<length xs] = Inr zs"
    using collect_Inr [of "[0..<length xs]" "\<lambda>j. py_nth (xs ! j) i"] by blast
  from collect_InrD [OF zs] have len: "length zs = length xs"
    and nth: "\<forall>j < length xs. py_nth (xs ! j) i = Inr (zs ! j)"
    by simp_all
  have "zs ! j = xs ! j ! i" if "j < length xs" for j
    using nth ok that by simp
  with zs len show ?thesis
    by (simp add: component_def)
qed

lemma length_concat_singletons:
  "\<forall>y \<in> set ys. length y = 1 \<Longrightarrow> length (concat ys) = length ys"
  by (induction ys) simp_all

lemma component_rows:
  assumes "\<forall>A \<in> set As. is_mat 2 1 A" and "i < 2"
  shows "\<exists>zs. component i As = Inr zs \<and> length (concat zs) = length As"
proof -
  have "\<forall>A \<in> set As. i < length A"
    using assms by (simp add: is_mat_def)
  from component_Inr [OF this] obtain zs where zs: "component i As = Inr zs"
    and len: "length zs = length As" and nth: "\<forall>j < length As. zs ! j = As ! j ! i"
    by blast
  have "length (zs ! j) = 1" if "j < length zs" for j
  proof -
    from that len have j: "j < length As" by simp
    then have "is_mat 2 1 (As ! j)"
      using assms(1) by simp
    then have "length (As ! j ! i) = 1"
      using assms(2) by (simp add: is_mat_def)
    with nth j show ?thesis by simp
  qed
  then have "\<forall>y \<in> set zs. length y = 1"
    by (simp add: all_set_conv_all_nth)
  then have "length (concat zs) = length zs"
    by (rule length_concat_singletons)
  with zs len show ?thesis
    by simp
qed

lemma rmse_Inr:
  assumes "length x = 2" and "is_mat 2 1 mu"
  shows "\<exists>v. rmse x mu = Inr [v]"
proof -
  from assms(1) obtain xa xb where "x = [xa, xb]"
    by (rule length_2E)
  moreover from assms(2) obtain ma mb where "mu = [[ma], [mb]]"
    by (rule is_mat_2_1E)
  ultimately show ?thesis
    by (simp add: rmse_def bindE_def py_nth_def)
qed

lemma RMSEs_Inr:
  assumes "nat (T + 1) \<le> length xs" and "nat (T + 1) \<le> length mus"
    and "\<forall>x \<in> set xs. length x = 2" and "\<forall>mu \<in> set mus. is_mat 2 1 mu"
  shows "\<exists>rs. RMSEs T xs mus = Inr rs \<and> length (concat rs) = nat (T + 1)"
proof -
  define f where "f = (\<lambda>k. bindE (py_nth xs k) (\<lambda>x. bindE (py_nth mus k) (\<lambda>mu. rmse x mu)))"
  have one: "\<exists>v. f k = Inr [v]" if "k < nat (T + 1)" for k
  proof -
    from that have k: "k < length xs" "k < length mus"
      using assms(1,2) by simp_all
    then have "length (xs ! k) = 2" "is_mat 2 1 (mus ! k)"
      using assms(3,4) by simp_all
    then obtain v where "rmse (xs ! k) (mus ! k) = Inr [v]"
      using rmse_Inr by blast
    with k show ?thesis
      by (simp add: f_def bindE_def py_nth_def)
  qed
  have "\<exists>v. f k = Inr v" if "k \<in> set [0..<nat (T + 1)]" for k
  proof -
    from that have "k < nat (T + 1)" by simp
    from one [OF this] show ?thesis by blast
  qed
  then have "\<forall>k \<in> set [0..<nat (T + 1)]. \<exists>v. f k = Inr v"
    by (rule ballI)
  then obtain rs where rs: "collect f [0..<nat (T + 1)] = Inr rs"
    using collect_Inr [of "[0..<nat (T + 1)]" f] by blast
  from collect_InrD [OF rs] have len: "length rs = nat (T + 1)"
    and nth: "\<And>i. i < nat (T + 1) \<Longrightarrow> f i = Inr (rs ! i)"
    by simp_all
  have "length y = 1" if "y \<in> set rs" for y
  proof -
    from that obtain i where i: "i < length rs" and y: "y = rs ! i"
      by (auto simp add: in_set_conv_nth)
    from i len have i': "i < nat (T + 1)" by simp
    from one [OF i'] obtain v where "f i = Inr [v]" by blast
    with nth [OF i'] have "rs ! i = [v]" by simp
    with y show ?thesis by simp
  qed
  then have "\<forall>y \<in> set rs. length y = 1"
    by (rule ballI)
  then have "length (concat rs) = length rs"
    by (rule length_concat_singletons)
  with rs len show ?thesis
    by (simp add: RMSEs_def f_def)
qed

lemma M_mat_shape: "is_mat 2 2 (M_mat w xi dt)"
  by (simp add: M_mat_def A_mat_def madd_def smul_def identity_2)

lemma length_funpow_matvec:
  "length x = length M \<Longrightarrow> length ((matvec M ^^ k) x) = length M"
  by (induction k) (simp_all add: matvec_def)

lemma length_py_take:
  "0 \<le> i \<Longrightarrow> nat i \<le> length xs \<Longrightarrow> length (py_take i xs) = nat i"
  by (simp add: py_take_def)

lemma set_py_take: "x \<in> set (py_take i xs) \<Longrightarrow> x \<in> set xs"
  by (auto simp add: py_take_def dest: in_set_takeD split: if_splits)

lemma ball_length_less:
  "\<forall>x \<in> set xs. length x = n \<Longrightarrow> i < n \<Longrightarrow> \<forall>x \<in> set xs. i < length x"
  by auto

lemma synth_ys_singletons:
  assumes "is_mat 1 2 H"
  shows "\<forall>y \<in> set (synth_ys H R xs g). length y = 1"
proof -
  from assms have "length H = 1"
    by (simp add: is_mat_def)
  then show ?thesis
    by (simp add: synth_ys_def vadd_s_def matvec_def split_beta)
qed

lemma scatter_same: "a = b \<Longrightarrow> scatter a b = Inr ()"
  by (simp add: scatter_def)

lemma program_negative_T:
  assumes n: "1 \<le> cfg_n cfg" and T: "cfg_T cfg < 0" and x0: "length (x0_draw d) = 2"
  shows "program cfg d = Inl ValueError"
proof -
  let ?M = "M_mat (cfg_w cfg) (cfg_xi cfg) (cfg_dt cfg)"
  from n T have neg: "cfg_n cfg * cfg_T cfg < 0"
    by (simp add: mult_pos_neg)
  then have "nat (cfg_n cfg * cfg_T cfg) = 0"
    by simp
  then have long: "true_xs_long ?M (x0_draw d) (cfg_n cfg) (cfg_T cfg) = Inr [x0_draw d]"
    by (simp add: true_xs_long_eq)
  from x0 obtain a b where ab: "x0_draw d = [a, b]"
    by (rule length_2E)
  have c0: "component 0 [x0_draw d] = Inr [x0_draw d ! 0]"
    by (simp add: ab component_def py_nth_def bindE_def)
  have c1: "component 1 [x0_draw d] = Inr [x0_draw d ! 1]"
    by (simp add: ab component_def py_nth_def bindE_def)
  from neg have "nat (cfg_n cfg * cfg_T cfg + 1) = 0"
    by simp
  then have "length (times_list (cfg_dt cfg) (cfg_n cfg * cfg_T cfg + 1)) = 0"
    by (simp add: times_list_def)
  then have s: "scatter (length (times_list (cfg_dt cfg) (cfg_n cfg * cfg_T cfg + 1)))
      (length [x0_draw d ! 0]) = Inl ValueError"
    by (simp add: scatter_def)
  show ?thesis
    by (simp only: program_def Let_def long bindE_def sum.case c0 c1 s)
qed

lemma program_completes_or_singular:
  assumes H: "is_mat 1 2 (cfg_H cfg)" and x0: "length (x0_draw d) = 2"
    and n: "1 \<le> cfg_n cfg" and T: "0 \<le> cfg_T cfg"
  shows "(\<exists>r. program cfg d = Inr r) \<or> program cfg d = Inl LinAlgError"
proof -
  let ?M = "M_mat (cfg_w cfg) (cfg_xi cfg) (cfg_dt cfg)"
  let ?T = "cfg_T cfg"
  let ?XL = "map (\<lambda>j. (matvec ?M ^^ j) (x0_draw d)) [0..<Suc (nat (cfg_n cfg * cfg_T cfg))]"
  let ?TL = "times_list (cfg_dt cfg) (cfg_n cfg * cfg_T cfg + 1)"
  let ?ts = "py_take (cfg_T cfg + 1) ?TL"
  let ?xs = "py_take (cfg_T cfg + 1) ?XL"
  let ?ys = "synth_ys (cfg_H cfg) (cfg_R cfg) ?xs (gauss d)"
  have M: "is_mat 2 2 ?M"
    by (rule M_mat_shape)
  then have "length ?M = 2"
    by (simp add: is_mat_def)
  with x0 have XL2: "\<forall>x \<in> set ?XL. length x = 2"
    by (simp add: length_funpow_matvec)
  have long: "true_xs_long ?M (x0_draw d) (cfg_n cfg) (cfg_T cfg) = Inr ?XL"
    by (rule true_xs_long_eq)
  from n T have nT: "0 \<le> cfg_n cfg * cfg_T cfg"
    by simp
  have "cfg_T cfg \<le> cfg_n cfg * cfg_T cfg"
    using n T by (simp add: mult_le_cancel_right1)
  then have le: "nat (cfg_T cfg + 1) \<le> Suc (nat (cfg_n cfg * cfg_T cfg))"
    by simp
  from T have T1: "0 \<le> cfg_T cfg + 1" and natT: "nat (cfg_T cfg + 1) = Suc (nat (cfg_T cfg))"
    by simp_all
  have lenXL: "length ?XL = Suc (nat (cfg_n cfg * cfg_T cfg))"
    by simp
  from nT have lenTL: "length ?TL = Suc (nat (cfg_n cfg * cfg_T cfg))"
    by (simp add: times_list_def nat_add_distrib)
  from XL2 have "\<forall>x \<in> set ?XL. 0 < length x"
    by (rule ball_length_less) simp
  from component_Inr [OF this] obtain ZL where c0: "component 0 ?XL = Inr ZL"
    and lenZL: "length ZL = length ?XL"
    by blast
  from XL2 have "\<forall>x \<in> set ?XL. 1 < length x"
    by (rule ball_length_less) simp
  from component_Inr [OF this] obtain ZtL where c1: "component 1 ?XL = Inr ZtL"
    and lenZtL: "length ZtL = length ?XL"
    by blast
  have s1: "scatter (length ?TL) (length ZL) = Inr ()"
    by (rule scatter_same) (simp only: lenTL lenZL lenXL)
  have s2: "scatter (length ?TL) (length ZtL) = Inr ()"
    by (rule scatter_same) (simp only: lenTL lenZtL lenXL)
  have len_ts: "length ?ts = Suc (nat (cfg_T cfg))"
    using length_py_take [OF T1, of ?TL] le lenTL natT by simp
  have len_xs: "length ?xs = Suc (nat (cfg_T cfg))"
    using length_py_take [OF T1, of ?XL] le lenXL natT by simp
  have len_zs: "length (py_take (cfg_T cfg + 1) ZL) = Suc (nat (cfg_T cfg))"
    using length_py_take [OF T1, of ZL] le lenZL lenXL natT by simp
  have len_zts: "length (py_take (cfg_T cfg + 1) ZtL) = Suc (nat (cfg_T cfg))"
    using length_py_take [OF T1, of ZtL] le lenZtL lenXL natT by simp
  have xs2: "\<forall>x \<in> set ?xs. length x = 2"
    using XL2 set_py_take [of _ "cfg_T cfg + 1" ?XL] by blast
  have ys1: "\<forall>y \<in> set ?ys. length y = 1"
    using H by (rule synth_ys_singletons)
  have len_ys: "length ?ys = Suc (nat (cfg_T cfg))"
    by (simp only: length_synth_ys len_xs)
  from ys1 have "length (concat ?ys) = length ?ys"
    by (rule length_concat_singletons)
  with len_ys have len_cys: "length (concat ?ys) = Suc (nat (cfg_T cfg))"
    by simp
  have s3: "scatter (length ?ts) (length (concat ?ys)) = Inr ()"
    by (rule scatter_same) (simp only: len_ts len_cys)
  have s4: "scatter (length ?ts) (length (py_take (cfg_T cfg + 1) ZL)) = Inr ()"
    by (rule scatter_same) (simp only: len_ts len_zs)
  have s5: "scatter (length ?ts) (length (py_take (cfg_T cfg + 1) ZtL)) = Inr ()"
    by (rule scatter_same) (simp only: len_ts len_zts)
  have "\<forall>k \<in> set [0..<nat (cfg_T cfg)]. k < length ?ys \<and> length (?ys ! k) = 1"
  proof
    fix k assume "k \<in> set [0..<nat (cfg_T cfg)]"
    then have k: "k < length ?ys"
      using len_ys by simp
    then have "?ys ! k \<in> set ?ys"
      by (rule nth_mem)
    with ys1 k show "k < length ?ys \<and> length (?ys ! k) = 1"
      by blast
  qed
  with kalman_loop_shape [OF M H shape_inv_init]
  consider st0 where "kalman_filter ?M (cfg_H cfg) (cfg_R cfg) (cfg_T cfg) ?ys = Inl (LinAlgError, st0)"
    | st where "kalman_filter ?M (cfg_H cfg) (cfg_R cfg) (cfg_T cfg) ?ys = Inr st" "shape_inv st"
    unfolding kalman_filter_def by blast
  then show ?thesis
  proof cases
    case 1
    have "program cfg d = Inl LinAlgError"
      by (simp only: program_def Let_def long bindE_def sum.case c0 c1 s1 s2 s3 s4 1 prod.case)
    then show ?thesis ..
  next
    case 2
    from kalman_loop_lengths [OF 2(1) [unfolded kalman_filter_def]]
    have len_mus: "length (kalman_mus st) = Suc (nat (cfg_T cfg))"
      and len_Ps: "length (kalman_Ps st) = Suc (nat (cfg_T cfg))"
      and len_gs: "length (kalman_gains st) = nat (cfg_T cfg)"
      by (simp_all add: kalman_init_def)
    from 2(2) have mus: "\<forall>mu \<in> set (kalman_mus st). is_mat 2 1 mu"
      and gs: "\<forall>K \<in> set (kalman_gains st). is_mat 2 1 K"
      by (simp_all add: shape_inv_def)
    from component_rows [OF mus, of 0] obtain kzs where k0: "component 0 (kalman_mus st) = Inr kzs"
      and len_kzs: "length (concat kzs) = length (kalman_mus st)"
      by auto
    from component_rows [OF mus, of 1] obtain kzts where k1: "component 1 (kalman_mus st) = Inr kzts"
      and len_kzts: "length (concat kzts) = length (kalman_mus st)"
      by auto
    from component_rows [OF gs, of 0] obtain K0s where g0: "component 0 (kalman_gains st) = Inr K0s"
      and len_K0s: "length (concat K0s) = length (kalman_gains st)"
      by auto
    from component_rows [OF gs, of 1] obtain K1s where g1: "component 1 (kalman_gains st) = Inr K1s"
      and len_K1s: "length (concat K1s) = length (kalman_gains st)"
      by auto
    have s6: "scatter (length ?ts) (length (concat kzs)) = Inr ()"
      by (rule scatter_same) (simp only: len_ts len_kzs len_mus)
    have s7: "scatter (length ?ts) (length (concat kzts)) = Inr ()"
      by (rule scatter_same) (simp only: len_ts len_kzts len_mus)
    have len_dts: "length (drop 1 ?ts) = nat (cfg_T cfg)"
      using len_ts by simp
    have s8: "scatter (length (drop 1 ?ts)) (length (concat K0s)) = Inr ()"
      by (rule scatter_same) (simp only: len_dts len_K0s len_gs)
    have s9: "scatter (length (drop 1 ?ts)) (length (concat K1s)) = Inr ()"
      by (rule scatter_same) (simp only: len_dts len_K1s len_gs)
    have "nat (cfg_T cfg + 1) \<le> length ?xs" "nat (cfg_T cfg + 1) \<le> length (kalman_mus st)"
      by (simp_all only: len_xs len_mus natT order_refl)
    from RMSEs_Inr [OF this xs2 mus] obtain rs
      where rs: "RMSEs (cfg_T cfg) ?xs (kalman_mus st) = Inr rs"
        and len_rs: "length (concat rs) = nat (cfg_T cfg + 1)"
      by blast
    have s10: "scatter (length ?ts) (length (concat rs)) = Inr ()"
      by (rule scatter_same) (simp only: len_ts len_rs natT)
    have "length (cov_traces (kalman_Ps st)) = Suc (nat (cfg_T cfg))"
      by (simp add: cov_traces_def len_Ps)
    then have s11: "scatter (length ?ts) (length (cov_traces (kalman_Ps st))) = Inr ()"
      by (simp only: len_ts scatter_same)
    have "\<exists>r. program cfg d = Inr r"
      by (simp only: program_def Let_def long bindE_def sum.case c0 c1 s1 s2 s3 s4 s5 2(1)
          k0 k1 s6 s7 g0 g1 s8 s9 rs s10 s11 simp_thms ex_simps) blast
    then show ?thesis ..
  qed
qed

text \<open>
  Against C8 as stated: with a negative time step the script runs to completion, steps
  included; the configuration is not rejected.
\<close>

theorem configuration_check_counterexample:
  "cfg_dt bad_cfg < 0 \<and> program bad_cfg draws_b = Inr run_bad
   \<and> run_true_xs run_bad = [[1, 0], [1, 1]]"
  by (simp add: program_bad) (simp add: bad_cfg_def run_bad_def)

text \<open>
  C8, amended. The script checks nothing of its configuration. For the shapes it
  hard-codes (a 1 by 2 \<open>H\<close>, a drawn \<open>x0\<close> of two entries, \<open>n \<ge> 1\<close>) and \<open>R \<ge> 0\<close>, whatever
  the sign of \<open>dt\<close>: with \<open>T \<ge> 0\<close> a run either completes or stops with the \<open>LinAlgError\<close>
  of a step's linear solve, and no other error is raised; with \<open>T < 0\<close> no check rejects
  the value, the list of times is empty while the list of true positions has one entry,
  and the run stops with the \<open>ValueError\<close> of a plot.
\<close>

theorem no_configuration_check:
  assumes H: "is_mat 1 2 (cfg_H cfg)" and x0: "length (x0_draw d) = 2"
    and n: "1 \<le> cfg_n cfg" and R: "0 \<le> cfg_R cfg"
  shows "(0 \<le> cfg_T cfg \<longrightarrow> (\<exists>r. program cfg d = Inr r) \<or> program cfg d = Inl LinAlgError)
     \<and> (cfg_T cfg < 0 \<longrightarrow> program cfg d = Inl ValueError)"
proof (intro conjI impI)
  assume "0 \<le> cfg_T cfg"
  with H x0 n show "(\<exists>r. program cfg d = Inr r) \<or> program cfg d = Inl LinAlgError"
    by (rule program_completes_or_singular)
next
  assume "cfg_T cfg < 0"
  with n show "program cfg d = Inl ValueError"
    using x0 by (rule program_negative_T)
qed

theorem no_configuration_check_witness:
  "is_mat 1 2 (cfg_H neg_cfg) \<and> length (x0_draw draws_c) = 2 \<and> 1 \<le> cfg_n neg_cfg
   \<and> 0 \<le> cfg_R neg_cfg \<and> cfg_T neg_cfg < 0 \<and> program neg_cfg draws_c = Inl ValueError
   \<and> is_mat 1 2 (cfg_H bad_cfg) \<and> length (x0_draw draws_b) = 2 \<and> 1 \<le> cfg_n bad_cfg
   \<and> 0 \<le> cfg_R bad_cfg \<and> 0 \<le> cfg_T bad_cfg \<and> cfg_dt bad_cfg < 0
   \<and> ((\<exists>r. program bad_cfg draws_b = Inr r) \<or> program bad_cfg draws_b = Inl LinAlgError)"
proof -
  have H: "is_mat 1 2 (cfg_H neg_cfg)" and x0: "length (x0_draw draws_c) = 2"
    and n: "1 \<le> cfg_n neg_cfg" and R: "0 \<le> cfg_R neg_cfg" and T: "cfg_T neg_cfg < 0"
    by (simp_all add: neg_cfg_def draws_c_def is_mat_def)
  have H': "is_mat 1 2 (cfg_H bad_cfg)" and x0': "length (x0_draw draws_b) = 2"
    and n': "1 \<le> cfg_n bad_cfg" and R': "0 \<le> cfg_R bad_cfg" and T': "0 \<le> cfg_T bad_cfg"
    and dt': "cfg_dt bad_cfg < 0"
    by (simp_all add: bad_cfg_def draws_b_def is_mat_def)
  from no_configuration_check [OF H x0 n R] T have 1: "program neg_cfg draws_c = Inl ValueError"
    by blast
  from no_configuration_check [OF H' x0' n' R'] T'
  have 2: "(\<exists>r. program bad_cfg draws_b = Inr r) \<or> program bad_cfg draws_b = Inl LinAlgError"
    by blast
  from H x0 n R T 1 H' x0' n' R' T' dt' 2 show ?thesis
    by (intro conjI)
qed


text \<open>
  Against C9 as stated: in the reference configuration the first true state is the value
  the generator returned for \<open>x0\<close>, here \<open>(1, 0)\<close>, not \<open>(0, 0)\<close>.
\<close>

theorem initial_condition_counterexample:
  "map_sum id hd (true_xs (M_mat (cfg_w reference) (cfg_xi reference) (cfg_dt reference))
      (x0_draw draws_b) (cfg_n reference) (cfg_T reference)) = Inr [1, 0]
   \<and> [1, 0] \<noteq> [0, 0 :: real]"
proof -
  have "map_sum id hd (true_xs (M_mat (cfg_w reference) (cfg_xi reference) (cfg_dt reference))
      (x0_draw draws_b) (cfg_n reference) (cfg_T reference)) = Inr (x0_draw draws_b)"
    by (rule true_xs_hd) (simp_all add: reference_def)
  then show ?thesis
    by (simp add: draws_b_def)
qed

text \<open>
  C9, amended. The reference run has \<open>\<omega> = 1\<close>, \<open>\<xi> = 0.001\<close>, \<open>dt = 0.001\<close>, \<open>T = 25000\<close>,
  \<open>H = [1, 0]\<close>, \<open>R = 5\<close>, the prior mean \<open>\<mu>\<^sub>0 = (0, 0)\<close> and the prior covariance \<open>P\<^sub>0 = I\<close>. The
  true initial condition is not a constant: it is the sample the unseeded generator
  returns for line 16, a vector of two entries, and the first true state of the run is
  that sample.
\<close>

theorem reference_configuration:
  assumes "length (x0_draw d) = 2"
  shows "cfg_w reference = 1 \<and> cfg_xi reference = 0.001 \<and> cfg_dt reference = 0.001
   \<and> cfg_T reference = 25000 \<and> cfg_H reference = [[1, 0]] \<and> cfg_R reference = 5
   \<and> kalman_mus kalman_init = [[[0], [0]]] \<and> kalman_Ps kalman_init = [[[1, 0], [0, 1]]]
   \<and> map_sum id hd (true_xs (M_mat (cfg_w reference) (cfg_xi reference) (cfg_dt reference))
        (x0_draw d) (cfg_n reference) (cfg_T reference)) = Inr (x0_draw d)"
proof -
  have "map_sum id hd (true_xs (M_mat (cfg_w reference) (cfg_xi reference) (cfg_dt reference))
      (x0_draw d) (cfg_n reference) (cfg_T reference)) = Inr (x0_draw d)"
    by (rule true_xs_hd) (simp_all add: reference_def)
  then show ?thesis
    by (simp add: reference_def kalman_init_def identity_2 arr)
qed

theorem reference_configuration_witness:
  "length (x0_draw draws_a) = 2 \<and> cfg_T reference = 25000 \<and> cfg_R reference = 5
   \<and> map_sum id hd (true_xs (M_mat (cfg_w reference) (cfg_xi reference) (cfg_dt reference))
        (x0_draw draws_a) (cfg_n reference) (cfg_T reference)) = Inr [0, 0]"
proof -
  have len: "length (x0_draw draws_a) = 2" and x: "x0_draw draws_a = [0, 0]"
    by (simp_all add: draws_a_def)
  from reference_configuration [OF len] len show ?thesis
    unfolding x by blast
qed

end
